theory Spec2Isabelle
  imports Complex_Main "HOL-Library.Word" "HOL-Library.Signed_Division"
begin

section \<open>C data of \<open>Modules/_billiard/semaphore.c\<close>\<close>

text \<open>
  The C scalar types are words of the LP64 widths: \<open>int\<close> is 32 bits, \<open>long\<close>,
  \<open>unsigned long\<close>, \<open>time_t\<close> and \<open>suseconds_t\<close> are 64 bits, a Win32 \<open>DWORD\<close> is
  32 bits. Word addition wraps; \<open><\<close> and \<open>\<le>\<close> on words compare unsigned, \<open><s\<close> and
  \<open>\<le>s\<close> compare signed; \<open>sint\<close> reads a word as a signed number. A \<open>double\<close> is
  modelled by the real number it denotes (finite values only, arithmetic exact).
\<close>

type_synonym c_int = "32 word"
type_synonym c_long = "64 word"
type_synonym c_ulong = "64 word"
type_synonym DWORD = "32 word"
type_synonym SEM_HANDLE = nat

definition c_div :: "'a::len word \<Rightarrow> 'a word \<Rightarrow> 'a word" where
  \<comment> \<open>C's \<open>/\<close> on signed integers: the quotient truncated towards zero\<close>
  "c_div a b = word_of_int (sint a sdiv sint b)"

definition c_rem :: "'a::len word \<Rightarrow> 'a word \<Rightarrow> 'a word" where
  \<comment> \<open>C's \<open>%\<close> on signed integers: the remainder has the sign of the dividend\<close>
  "c_rem a b = word_of_int (sint a smod sint b)"

definition trunc :: "real \<Rightarrow> int" where
  \<comment> \<open>the integer part of a double, as a cast to an integer type takes it\<close>
  "trunc x = (if 0 \<le> x then \<lfloor>x\<rfloor> else \<lceil>x\<rceil>)"

text \<open>\<open>enum { RECURSIVE_MUTEX, SEMAPHORE }\<close>\<close>

definition RECURSIVE_MUTEX :: c_int where "RECURSIVE_MUTEX = 0"
definition SEMAPHORE :: c_int where "SEMAPHORE = 1"

text \<open>\<open>BilliardSemLockObject\<close>; a \<open>name\<close> of \<open>None\<close> is the C \<open>NULL\<close>.\<close>

record BilliardSemLockObject =
  handle :: SEM_HANDLE
  last_tid :: c_long
  count :: c_int
  maxvalue :: c_int
  kind :: c_int
  name :: "string option"

text \<open>
  \<open>#define ISMINE(o) (o->count > 0 && PyThread_get_thread_ident() == o->last_tid)\<close>;
  the second argument is the identifier of the calling thread.
\<close>

definition ISMINE :: "BilliardSemLockObject \<Rightarrow> c_long \<Rightarrow> bool" where
  "ISMINE self tid \<longleftrightarrow> 0 <s count self \<and> tid = last_tid self"

record timeval =
  tv_sec :: c_long
  tv_usec :: c_long

record timespec =
  ts_sec :: c_long
  ts_nsec :: c_long

section \<open>The environment: operating system and interpreter\<close>

datatype errcode = E_NONE | EAGAIN | EINTR | ETIMEDOUT | E_OTHER nat

text \<open>
  The Python exceptions a method leaves behind when it returns \<open>NULL\<close>.
  \<open>ConversionError\<close> is whatever \<open>PyFloat_AsDouble\<close> raised, \<open>Interrupted\<close> whatever
  \<open>PyErr_CheckSignals\<close> raised, \<open>AllocationError\<close> what \<open>PyObject_New\<close> raised, and
  \<open>SemOpenFailed\<close> is the \<open>NULL\<close> that \<open>_rebuild\<close> returns when \<open>sem_open\<close> fails.
  \<open>Billiard_SetError\<close> is defined outside this file; its exception is kept opaque,
  tagged with the code it was called with.
\<close>

datatype pyexc =
    AssertionError
  | ValueError
  | OverflowError
  | OSError errcode
  | WindowsErr
  | RuntimeError DWORD
  | NotImplementedError
  | ConversionError
  | Interrupted
  | AllocationError
  | SemOpenFailed
  | Billiard_SetError int

text \<open>
  The \<open>timeout\<close> argument as the methods see it: \<open>None\<close>, an object that
  \<open>PyFloat_AsDouble\<close> converts to a double, or an object it refuses (raising).
\<close>

datatype pyobj = Py_None | Py_Float real | Py_Other

fun PyFloat_AsDouble :: "pyobj \<Rightarrow> real option" where
  "PyFloat_AsDouble (Py_Float d) = Some d"
| "PyFloat_AsDouble Py_None = None"
| "PyFloat_AsDouble Py_Other = None"

text \<open>
  A call to the operating system or to the interpreter's runtime (signals, allocation)
  is an event: the call is appended to \<open>trace\<close> and its answer is the next element of
  \<open>answers\<close>, the script of what the environment answers. One answer carries the value
  returned, the error number a failing call stores in \<open>errno\<close>, and the out-parameters
  of \<open>sem_getvalue\<close> and \<open>gettimeofday\<close>. A call on an exhausted script has not
  returned: the result is \<open>None\<close>. Nothing is assumed of the answers, so other
  processes may act on the semaphore between any two calls. The identifier of the
  calling thread is an argument of each method.
\<close>

datatype call =
    SEM_WAIT SEM_HANDLE
  | SEM_TRYWAIT SEM_HANDLE
  | SEM_POST SEM_HANDLE
  | SEM_GETVALUE SEM_HANDLE
  | SEM_OPEN string
  | GETTIMEOFDAY
  | SELECT timeval
  | PYERR_CHECKSIGNALS
  | PYOBJECT_NEW
  | WAITFORSINGLEOBJECT SEM_HANDLE DWORD
  | RESETEVENT
  | WAITFORMULTIPLEOBJECTS SEM_HANDLE DWORD
  | SLEEP DWORD
  | GETTICKCOUNT
  | RELEASESEMAPHORE SEM_HANDLE

record response =
  ret :: int
  err :: errcode
  out_sval :: c_int
  out_tv :: timeval

record world =
  answers :: "response list"
  trace :: "call list"
  errno :: errcode

definition extcall :: "call \<Rightarrow> world \<Rightarrow> (response \<times> world) option" where
  "extcall c w =
     (case answers w of
        [] \<Rightarrow> None
      | r # rs \<Rightarrow> Some (r, w\<lparr>answers := rs, trace := trace w @ [c]\<rparr>))"

definition syscall :: "call \<Rightarrow> world \<Rightarrow> (response \<times> world) option" where
  \<comment> \<open>a POSIX call: a negative return value comes with \<open>errno\<close> set\<close>
  "syscall c w =
     (case extcall c w of
        None \<Rightarrow> None
      | Some (r, w') \<Rightarrow> Some (r, if ret r < 0 then w'\<lparr>errno := err r\<rparr> else w'))"

text \<open>
  \<open>MP_STANDARD_ERROR\<close> and \<open>MP_EXCEPTION_HAS_BEEN_SET\<close> come from \<open>multiprocessing.h\<close>,
  which is not part of the sources at hand: the functions take them as a parameter.
\<close>

record mp_header =
  MP_STANDARD_ERROR :: int
  MP_EXCEPTION_HAS_BEEN_SET :: int

section \<open>The emulated timed wait\<close>

text \<open>
  The \<open>for (delay = 0 ; ; delay += 1000)\<close> loop of \<open>Billiard_sem_timedwait_save\<close>, as a
  function of the value of \<open>delay\<close> on entry to the loop body. It returns the C return
  value and the world; a run whose script of answers ends before the loop exits has
  not returned.
\<close>

partial_function (option) poll_loop ::
  "mp_header \<Rightarrow> SEM_HANDLE \<Rightarrow> timeval \<Rightarrow> c_ulong \<Rightarrow> world \<Rightarrow> (int \<times> world) option"
where
  "poll_loop H sem tvdeadline delay w =
     (case syscall (SEM_TRYWAIT sem) w of
        None \<Rightarrow> None
      | Some (r1, w1) \<Rightarrow>
          if ret r1 = 0 then Some (0, w1)
          else if errno w1 \<noteq> EAGAIN then Some (MP_STANDARD_ERROR H, w1)
          else
            (case syscall GETTIMEOFDAY w1 of
               None \<Rightarrow> None
             | Some (r2, w2) \<Rightarrow>
                 if ret r2 < 0 then Some (MP_STANDARD_ERROR H, w2)
                 else if tv_sec tvdeadline <s tv_sec (out_tv r2) \<or>
                         (tv_sec tvdeadline = tv_sec (out_tv r2) \<and>
                          tv_usec tvdeadline \<le>s tv_usec (out_tv r2))
                 then Some (MP_STANDARD_ERROR H, w2\<lparr>errno := ETIMEDOUT\<rparr>)
                 else
                   let difference = (tv_sec tvdeadline - tv_sec (out_tv r2)) * 1000000 +
                                    (tv_usec tvdeadline - tv_usec (out_tv r2));
                       delay1 = (if 20000 < delay then 20000 else delay);
                       delay2 = (if difference < delay1 then difference else delay1)
                   in
                     (case syscall (SELECT \<lparr>tv_sec = delay2 div 1000000,
                                            tv_usec = delay2 mod 1000000\<rparr>) w2 of
                        None \<Rightarrow> None
                      | Some (r3, w3) \<Rightarrow>
                          if ret r3 < 0 then Some (MP_STANDARD_ERROR H, w3)
                          else
                            (case extcall PYERR_CHECKSIGNALS w3 of
                               None \<Rightarrow> None
                             | Some (r4, w4) \<Rightarrow>
                                 if ret r4 \<noteq> 0
                                 then Some (MP_EXCEPTION_HAS_BEEN_SET H, w4\<lparr>errno := EINTR\<rparr>)
                                 else poll_loop H sem tvdeadline (delay2 + 1000) w4))))"

definition Billiard_sem_timedwait_save ::
  "mp_header \<Rightarrow> SEM_HANDLE \<Rightarrow> timespec \<Rightarrow> world \<Rightarrow> (int \<times> world) option"
where
  "Billiard_sem_timedwait_save H sem deadline w =
     poll_loop H sem \<lparr>tv_sec = ts_sec deadline, tv_usec = c_div (ts_nsec deadline) 1000\<rparr> 0
       (w\<lparr>errno := E_NONE\<rparr>)"

section \<open>Acquire and release, POSIX\<close>

text \<open>
  Lines 290 to 307 of \<open>Billiard_semlock_acquire\<close>: the deadline of a call whose
  \<open>timeout\<close> is not \<open>None\<close>. The code casts the double to \<open>long\<close> with no check of
  its range; where C leaves the cast undefined the model reduces the integer part
  modulo \<open>2^64\<close>.
\<close>

definition acquire_deadline :: "pyobj \<Rightarrow> world \<Rightarrow> ((pyexc + timespec) \<times> world) option" where
  "acquire_deadline timeout_obj w =
     (if timeout_obj \<noteq> Py_None then
        (case PyFloat_AsDouble timeout_obj of
           None \<Rightarrow> Some (Inl ConversionError, w)
         | Some t \<Rightarrow>
             let timeout = (if t < 0 then 0 else t) in
               (case syscall GETTIMEOFDAY w of
                  None \<Rightarrow> None
                | Some (r, w1) \<Rightarrow>
                    if ret r < 0 then Some (Inl (OSError (errno w1)), w1)
                    else
                      let now = out_tv r;
                          sec = (word_of_int (trunc timeout) :: c_long);
                          nsec = (word_of_int
                                    (trunc (1000000000 * (timeout - real_of_int (sint sec)) + 0.5))
                                  :: c_long);
                          d_sec = tv_sec now + sec;
                          d_nsec = tv_usec now * 1000 + nsec
                      in Some (Inr \<lparr>ts_sec = d_sec + c_div d_nsec 1000000000,
                                     ts_nsec = c_rem d_nsec 1000000000\<rparr>, w1)))
      else Some (Inr \<lparr>ts_sec = 0, ts_nsec = 0\<rparr>, w))"

text \<open>The \<open>do ... while\<close> loop of \<open>Billiard_semlock_acquire\<close>; it yields \<open>res\<close>.\<close>

partial_function (option) acquire_wait ::
  "mp_header \<Rightarrow> SEM_HANDLE \<Rightarrow> bool \<Rightarrow> pyobj \<Rightarrow> timespec \<Rightarrow> world \<Rightarrow> (int \<times> world) option"
where
  "acquire_wait H h blocking timeout_obj deadline w =
     (case (if blocking \<and> timeout_obj = Py_None then
              (case syscall (SEM_WAIT h) w of
                 None \<Rightarrow> None | Some (r, w1) \<Rightarrow> Some (ret r, w1))
            else if \<not> blocking then
              (case syscall (SEM_TRYWAIT h) w of
                 None \<Rightarrow> None | Some (r, w1) \<Rightarrow> Some (ret r, w1))
            else Billiard_sem_timedwait_save H h deadline w) of
        None \<Rightarrow> None
      | Some (res, w1) \<Rightarrow>
          if res = MP_EXCEPTION_HAS_BEEN_SET H then Some (res, w1)
          else if res < 0 \<and> errno w1 = EINTR then
            (case extcall PYERR_CHECKSIGNALS w1 of
               None \<Rightarrow> None
             | Some (r, w2) \<Rightarrow>
                 if ret r = 0 then acquire_wait H h blocking timeout_obj deadline w2
                 else Some (res, w2))
          else Some (res, w1))"

definition Billiard_semlock_acquire ::
  "mp_header \<Rightarrow> BilliardSemLockObject \<Rightarrow> c_long \<Rightarrow> bool \<Rightarrow> pyobj \<Rightarrow> world \<Rightarrow>
     ((pyexc + bool) \<times> BilliardSemLockObject \<times> world) option"
where
  "Billiard_semlock_acquire H self tid blocking timeout_obj w =
     (if kind self = RECURSIVE_MUTEX \<and> ISMINE self tid
      then Some (Inr True, self\<lparr>count := count self + 1\<rparr>, w)
      else
        (case acquire_deadline timeout_obj w of
           None \<Rightarrow> None
         | Some (Inl e, w1) \<Rightarrow> Some (Inl e, self, w1)
         | Some (Inr deadline, w1) \<Rightarrow>
             (case acquire_wait H (handle self) blocking timeout_obj deadline w1 of
                None \<Rightarrow> None
              | Some (res, w2) \<Rightarrow>
                  if res < 0 then
                    (if errno w2 = EAGAIN \<or> errno w2 = ETIMEDOUT then Some (Inr False, self, w2)
                     else if errno w2 = EINTR then Some (Inl Interrupted, self, w2)
                     else Some (Inl (OSError (errno w2)), self, w2))
                  else Some (Inr True, self\<lparr>count := count self + 1, last_tid := tid\<rparr>, w2))))"

text \<open>The tail of \<open>Billiard_semlock_release\<close>: \<open>sem_post\<close>, then \<open>--self->count\<close>.\<close>

definition release_post ::
  "BilliardSemLockObject \<Rightarrow> world \<Rightarrow> ((pyexc + unit) \<times> BilliardSemLockObject \<times> world) option"
where
  "release_post self w =
     (case syscall (SEM_POST (handle self)) w of
        None \<Rightarrow> None
      | Some (r, w1) \<Rightarrow>
          if ret r < 0 then Some (Inl (OSError (errno w1)), self, w1)
          else Some (Inr (), self\<lparr>count := count self - 1\<rparr>, w1))"

text \<open>
  \<open>Billiard_semlock_release\<close>; the first argument says whether
  \<open>HAVE_BROKEN_SEM_GETVALUE\<close> is defined.
\<close>

definition Billiard_semlock_release ::
  "bool \<Rightarrow> BilliardSemLockObject \<Rightarrow> c_long \<Rightarrow> world \<Rightarrow>
     ((pyexc + unit) \<times> BilliardSemLockObject \<times> world) option"
where
  "Billiard_semlock_release broken self tid w =
     (if kind self = RECURSIVE_MUTEX then
        (if \<not> ISMINE self tid then Some (Inl AssertionError, self, w)
         else if 1 <s count self then Some (Inr (), self\<lparr>count := count self - 1\<rparr>, w)
         else release_post self w)
      else if broken then
        (if maxvalue self = 1 then
           (case syscall (SEM_TRYWAIT (handle self)) w of
              None \<Rightarrow> None
            | Some (r, w1) \<Rightarrow>
                if ret r < 0 then
                  (if errno w1 \<noteq> EAGAIN then Some (Inl (OSError (errno w1)), self, w1)
                   else release_post self w1)
                else
                  (case syscall (SEM_POST (handle self)) w1 of
                     None \<Rightarrow> None
                   | Some (r2, w2) \<Rightarrow>
                       if ret r2 < 0 then Some (Inl (OSError (errno w2)), self, w2)
                       else Some (Inl ValueError, self, w2)))
         else release_post self w)
      else
        (case syscall (SEM_GETVALUE (handle self)) w of
           None \<Rightarrow> None
         | Some (r, w1) \<Rightarrow>
             if ret r < 0 then Some (Inl (OSError (errno w1)), self, w1)
             else if maxvalue self \<le>s out_sval r then Some (Inl ValueError, self, w1)
             else release_post self w1))"

section \<open>Construction, introspection and fork, all platforms\<close>

definition SEM_FAILED :: SEM_HANDLE where "SEM_FAILED = 0"

definition Billiard_newsemlockobject ::
  "SEM_HANDLE \<Rightarrow> c_int \<Rightarrow> c_int \<Rightarrow> string option \<Rightarrow> world \<Rightarrow>
     ((pyexc + BilliardSemLockObject) \<times> world) option"
where
  "Billiard_newsemlockobject h k mv nm w =
     (case extcall PYOBJECT_NEW w of
        None \<Rightarrow> None
      | Some (r, w1) \<Rightarrow>
          if ret r = 0 then Some (Inl AllocationError, w1)
          else Some (Inr \<lparr>handle = h, last_tid = 0, count = 0, maxvalue = mv, kind = k,
                           name = nm\<rparr>, w1))"

text \<open>
  \<open>Billiard_semlock_rebuild\<close>; the first argument says whether \<open>MS_WINDOWS\<close> is
  defined. The value \<open>sem_open\<close> returns is the new handle.
\<close>

definition Billiard_semlock_rebuild ::
  "bool \<Rightarrow> SEM_HANDLE \<Rightarrow> c_int \<Rightarrow> c_int \<Rightarrow> string option \<Rightarrow> world \<Rightarrow>
     ((pyexc + BilliardSemLockObject) \<times> world) option"
where
  "Billiard_semlock_rebuild ms_windows h k mv nm w =
     (case (if ms_windows then None else nm) of
        Some n \<Rightarrow>
          (case syscall (SEM_OPEN n) w of
             None \<Rightarrow> None
           | Some (r, w1) \<Rightarrow>
               if nat (ret r) = SEM_FAILED then Some (Inl SemOpenFailed, w1)
               else Billiard_newsemlockobject (nat (ret r)) k mv nm w1)
      | None \<Rightarrow> Billiard_newsemlockobject h k mv nm w)"

definition Billiard_semlock_count :: "BilliardSemLockObject \<Rightarrow> int" where
  "Billiard_semlock_count self = sint (count self)"

definition Billiard_semlock_ismine :: "BilliardSemLockObject \<Rightarrow> c_long \<Rightarrow> bool" where
  "Billiard_semlock_ismine self tid = ISMINE self tid"

text \<open>
  \<open>Billiard_semlock_getvalue\<close> with the POSIX \<open>SEM_GETVALUE\<close>, which is \<open>sem_getvalue\<close>;
  the first argument says whether \<open>HAVE_BROKEN_SEM_GETVALUE\<close> is defined.
\<close>

definition Billiard_semlock_getvalue ::
  "mp_header \<Rightarrow> bool \<Rightarrow> BilliardSemLockObject \<Rightarrow> world \<Rightarrow> ((pyexc + int) \<times> world) option"
where
  "Billiard_semlock_getvalue H broken self w =
     (if broken then Some (Inl NotImplementedError, w)
      else
        (case syscall (SEM_GETVALUE (handle self)) w of
           None \<Rightarrow> None
         | Some (r, w1) \<Rightarrow>
             if ret r < 0 then Some (Inl (Billiard_SetError (MP_STANDARD_ERROR H)), w1)
             else Some (Inr (sint (if out_sval r <s 0 then 0 else out_sval r)), w1)))"

definition Billiard_semlock_afterfork ::
  "BilliardSemLockObject \<Rightarrow> world \<Rightarrow> BilliardSemLockObject \<times> world"
where
  "Billiard_semlock_afterfork self w = (self\<lparr>count := 0\<rparr>, w)"

section \<open>Acquire, Win32\<close>

definition INFINITE :: DWORD where "INFINITE = 0xFFFFFFFF"
definition WAIT_OBJECT_0 :: DWORD where "WAIT_OBJECT_0 = 0"
definition WAIT_TIMEOUT :: DWORD where "WAIT_TIMEOUT = 258"
definition WAIT_FAILED :: DWORD where "WAIT_FAILED = 0xFFFFFFFF"

text \<open>The block under \<open>/* calculate timeout */\<close>: \<open>full_msecs\<close>, or the exception.\<close>

definition win_full_msecs :: "bool \<Rightarrow> pyobj \<Rightarrow> pyexc + DWORD" where
  "win_full_msecs blocking timeout_obj =
     (if \<not> blocking then Inr 0
      else if timeout_obj = Py_None then Inr INFINITE
      else
        (case PyFloat_AsDouble timeout_obj of
           None \<Rightarrow> Inl ConversionError
         | Some t \<Rightarrow>
             let timeout = t * 1000 in
               if timeout < 0 then Inr (word_of_int (trunc (0 + 0.5)))
               else if 0.5 * real (unat INFINITE) \<le> timeout then Inl OverflowError
               else Inr (word_of_int (trunc (timeout + 0.5)))))"

text \<open>
  The \<open>for ( ; ; )\<close> loop: \<open>Inl\<close> is a \<open>return\<close> from inside the loop, \<open>Inr res\<close> the
  \<open>break\<close>.
\<close>

partial_function (option) win_wait_loop ::
  "SEM_HANDLE \<Rightarrow> DWORD \<Rightarrow> DWORD \<Rightarrow> DWORD \<Rightarrow> world \<Rightarrow>
     (((pyexc + bool) + DWORD) \<times> world) option"
where
  "win_wait_loop h full_msecs start msecs w =
     (case extcall RESETEVENT w of
        None \<Rightarrow> None
      | Some (r0, w0) \<Rightarrow>
          (case extcall (WAITFORMULTIPLEOBJECTS h msecs) w0 of
             None \<Rightarrow> None
           | Some (r1, w1) \<Rightarrow>
               if (word_of_int (ret r1) :: DWORD) \<noteq> WAIT_OBJECT_0 + 1
               then Some (Inr (word_of_int (ret r1)), w1)
               else
                 (case extcall (SLEEP 1) w1 of
                    None \<Rightarrow> None
                  | Some (r2, w2) \<Rightarrow>
                      (case extcall PYERR_CHECKSIGNALS w2 of
                         None \<Rightarrow> None
                       | Some (r3, w3) \<Rightarrow>
                           if ret r3 \<noteq> 0 then Some (Inl (Inl Interrupted), w3)
                           else if msecs \<noteq> INFINITE then
                             (case extcall GETTICKCOUNT w3 of
                                None \<Rightarrow> None
                              | Some (r4, w4) \<Rightarrow>
                                  if full_msecs \<le> word_of_int (ret r4) - start
                                  then Some (Inl (Inr False), w4)
                                  else win_wait_loop h full_msecs start
                                         (full_msecs - (word_of_int (ret r4) - start)) w4)
                           else win_wait_loop h full_msecs start msecs w3))))"

text \<open>
  The Win32 \<open>Billiard_semlock_acquire\<close>. \<open>tid\<close> is the calling thread, which both
  \<open>PyThread_get_thread_ident\<close> and \<open>GetCurrentThreadId\<close> return.
\<close>

definition Billiard_semlock_acquire_win ::
  "BilliardSemLockObject \<Rightarrow> c_long \<Rightarrow> bool \<Rightarrow> pyobj \<Rightarrow> world \<Rightarrow>
     ((pyexc + bool) \<times> BilliardSemLockObject \<times> world) option"
where
  "Billiard_semlock_acquire_win self tid blocking timeout_obj w =
     (case win_full_msecs blocking timeout_obj of
        Inl e \<Rightarrow> Some (Inl e, self, w)
      | Inr full_msecs \<Rightarrow>
          if kind self = RECURSIVE_MUTEX \<and> ISMINE self tid
          then Some (Inr True, self\<lparr>count := count self + 1\<rparr>, w)
          else
            (case extcall (WAITFORSINGLEOBJECT (handle self) 0) w of
               None \<Rightarrow> None
             | Some (r, w1) \<Rightarrow>
                 if (word_of_int (ret r) :: DWORD) = WAIT_OBJECT_0
                 then Some (Inr True, self\<lparr>last_tid := tid, count := count self + 1\<rparr>, w1)
                 else
                   (case extcall GETTICKCOUNT w1 of
                      None \<Rightarrow> None
                    | Some (r2, w2) \<Rightarrow>
                        (case win_wait_loop (handle self) full_msecs (word_of_int (ret r2))
                                full_msecs w2 of
                           None \<Rightarrow> None
                         | Some (Inl x, w3) \<Rightarrow> Some (x, self, w3)
                         | Some (Inr res, w3) \<Rightarrow>
                             if res = WAIT_TIMEOUT then Some (Inr False, self, w3)
                             else if res = WAIT_OBJECT_0
                             then Some (Inr True,
                                        self\<lparr>last_tid := tid, count := count self + 1\<rparr>, w3)
                             else if res = WAIT_FAILED then Some (Inl WindowsErr, self, w3)
                             else Some (Inl (RuntimeError res), self, w3)))))"

section \<open>Sequences of calls on one instance\<close>

datatype invocation = Acquire c_long bool pyobj | Release c_long | AfterFork

datatype returned = Acquired "pyexc + bool" | Released "pyexc + unit" | Forked

fun invoke ::
  "mp_header \<Rightarrow> bool \<Rightarrow> BilliardSemLockObject \<Rightarrow> world \<Rightarrow> invocation \<Rightarrow>
     (returned \<times> BilliardSemLockObject \<times> world) option"
where
  "invoke H broken self w (Acquire tid blocking timeout_obj) =
     (case Billiard_semlock_acquire H self tid blocking timeout_obj w of
        None \<Rightarrow> None
      | Some (x, self1, w1) \<Rightarrow> Some (Acquired x, self1, w1))"
| "invoke H broken self w (Release tid) =
     (case Billiard_semlock_release broken self tid w of
        None \<Rightarrow> None
      | Some (x, self1, w1) \<Rightarrow> Some (Released x, self1, w1))"
| "invoke H broken self w AfterFork =
     (case Billiard_semlock_afterfork self w of (self1, w1) \<Rightarrow> Some (Forked, self1, w1))"

fun invoke_all ::
  "mp_header \<Rightarrow> bool \<Rightarrow> BilliardSemLockObject \<Rightarrow> world \<Rightarrow> invocation list \<Rightarrow>
     (returned list \<times> BilliardSemLockObject \<times> world) option"
where
  "invoke_all H broken self w [] = Some ([], self, w)"
| "invoke_all H broken self w (m # ms) =
     (case invoke H broken self w m of
        None \<Rightarrow> None
      | Some (x, self1, w1) \<Rightarrow>
          (case invoke_all H broken self1 w1 ms of
             None \<Rightarrow> None
           | Some (xs, self2, w2) \<Rightarrow> Some (x # xs, self2, w2)))"

section \<open>Sample answers and instances\<close>

text \<open>Answers of the environment, and a script of them as the world before a call.\<close>

definition answer :: "int \<Rightarrow> response" where
  "answer v = \<lparr>ret = v, err = E_NONE, out_sval = 0, out_tv = \<lparr>tv_sec = 0, tv_usec = 0\<rparr>\<rparr>"

definition failure :: "errcode \<Rightarrow> response" where
  "failure e = \<lparr>ret = - 1, err = e, out_sval = 0, out_tv = \<lparr>tv_sec = 0, tv_usec = 0\<rparr>\<rparr>"

definition sem_value :: "c_int \<Rightarrow> response" where
  "sem_value v = \<lparr>ret = 0, err = E_NONE, out_sval = v, out_tv = \<lparr>tv_sec = 0, tv_usec = 0\<rparr>\<rparr>"

definition clock :: "c_long \<Rightarrow> c_long \<Rightarrow> response" where
  "clock s us = \<lparr>ret = 0, err = E_NONE, out_sval = 0, out_tv = \<lparr>tv_sec = s, tv_usec = us\<rparr>\<rparr>"

definition script :: "response list \<Rightarrow> world" where
  "script as = \<lparr>answers = as, trace = [], errno = E_NONE\<rparr>"

definition mp_h :: mp_header where
  "mp_h = \<lparr>MP_STANDARD_ERROR = - 1, MP_EXCEPTION_HAS_BEEN_SET = - 1006\<rparr>"

definition fresh_mutex :: BilliardSemLockObject where
  "fresh_mutex =
     \<lparr>handle = 5, last_tid = 0, count = 0, maxvalue = 1, kind = RECURSIVE_MUTEX, name = None\<rparr>"

definition fresh_semaphore :: BilliardSemLockObject where
  "fresh_semaphore =
     \<lparr>handle = 5, last_tid = 0, count = 0, maxvalue = 1, kind = SEMAPHORE, name = None\<rparr>"

section \<open>Rounds of the emulated timed wait\<close>

text \<open>
  The vocabulary for statements about the poll loop. \<open>sleeps\<close> reads off a trace the
  delays passed to \<open>select\<close>, in microseconds. \<open>deadline_passed\<close>, \<open>remaining\<close> and
  \<open>round_sleep\<close> are the timeout test, \<open>difference\<close> and the capped \<open>delay\<close> of the loop
  body. A round is the four answers one pass of the body consumes; it is quiet when
  the pass ends in the next pass. \<open>round_sleeps\<close> lists the delays of successive rounds
  and \<open>delay_after\<close> is the \<open>delay\<close> they leave. \<open>time_moves_on\<close> says of successive
  rounds that the deadline is ahead at each clock reading and that from one reading
  to the next at least the time slept has gone by. \<open>geometric\<close> says that a list of
  numbers grows with a constant ratio.
\<close>

primrec sleeps :: "call list \<Rightarrow> c_ulong list" where
  "sleeps [] = []"
| "sleeps (c # cs) =
     (case c of SELECT tv \<Rightarrow> [tv_sec tv * 1000000 + tv_usec tv] | _ \<Rightarrow> []) @ sleeps cs"

definition deadline_passed :: "timeval \<Rightarrow> timeval \<Rightarrow> bool" where
  "deadline_passed tvdeadline now \<longleftrightarrow>
     tv_sec tvdeadline <s tv_sec now \<or>
     (tv_sec tvdeadline = tv_sec now \<and> tv_usec tvdeadline \<le>s tv_usec now)"

definition remaining :: "timeval \<Rightarrow> timeval \<Rightarrow> c_ulong" where
  "remaining tvdeadline now =
     (tv_sec tvdeadline - tv_sec now) * 1000000 + (tv_usec tvdeadline - tv_usec now)"

definition round_sleep :: "timeval \<Rightarrow> c_ulong \<Rightarrow> timeval \<Rightarrow> c_ulong" where
  "round_sleep tvdeadline delay now =
     (if remaining tvdeadline now < (if 20000 < delay then 20000 else delay)
      then remaining tvdeadline now
      else (if 20000 < delay then 20000 else delay))"

type_synonym poll_round = "response \<times> response \<times> response \<times> response"

definition quiet_round :: "timeval \<Rightarrow> poll_round \<Rightarrow> bool" where
  "quiet_round tvdeadline q =
     (case q of (r1, r2, r3, r4) \<Rightarrow>
        ret r1 < 0 \<and> err r1 = EAGAIN \<and> 0 \<le> ret r2 \<and>
        \<not> deadline_passed tvdeadline (out_tv r2) \<and> 0 \<le> ret r3 \<and> ret r4 = 0)"

definition round_answers :: "poll_round list \<Rightarrow> response list" where
  "round_answers qs = concat (map (\<lambda>(r1, r2, r3, r4). [r1, r2, r3, r4]) qs)"

fun round_sleeps :: "timeval \<Rightarrow> c_ulong \<Rightarrow> poll_round list \<Rightarrow> c_ulong list" where
  "round_sleeps tvdeadline delay [] = []"
| "round_sleeps tvdeadline delay ((r1, r2, r3, r4) # qs) =
     round_sleep tvdeadline delay (out_tv r2) #
     round_sleeps tvdeadline (round_sleep tvdeadline delay (out_tv r2) + 1000) qs"

fun delay_after :: "timeval \<Rightarrow> c_ulong \<Rightarrow> poll_round list \<Rightarrow> c_ulong" where
  "delay_after tvdeadline delay [] = delay"
| "delay_after tvdeadline delay ((r1, r2, r3, r4) # qs) =
     delay_after tvdeadline (round_sleep tvdeadline delay (out_tv r2) + 1000) qs"

fun time_moves_on :: "timeval \<Rightarrow> c_ulong \<Rightarrow> poll_round list \<Rightarrow> bool" where
  "time_moves_on tvdeadline delay [] = True"
| "time_moves_on tvdeadline delay [(r1, r2, r3, r4)] = (0 < remaining tvdeadline (out_tv r2))"
| "time_moves_on tvdeadline delay ((r1, r2, r3, r4) # (r1', r2', r3', r4') # qs) =
     (0 < remaining tvdeadline (out_tv r2) \<and>
      unat (remaining tvdeadline (out_tv r2')) +
        unat (round_sleep tvdeadline delay (out_tv r2)) \<le>
        unat (remaining tvdeadline (out_tv r2)) \<and>
      time_moves_on tvdeadline (round_sleep tvdeadline delay (out_tv r2) + 1000)
        ((r1', r2', r3', r4') # qs))"

fun geometric :: "nat list \<Rightarrow> bool" where
  "geometric (a # b # c # ds) = (a < b \<and> b * b = a * c \<and> geometric (b # c # ds))"
| "geometric ds = True"

text \<open>Rounds of the poll loop in which nothing happens, and the calls of a run of four.\<close>

definition waiting :: poll_round where
  "waiting = (failure EAGAIN, clock 100 0, answer 0, answer 0)"

definition nearly_due :: poll_round where
  "nearly_due = (failure EAGAIN, clock 100 999500, answer 0, answer 0)"

definition four_polls :: "call list" where
  "four_polls =
     [GETTIMEOFDAY,
      SEM_TRYWAIT 5, GETTIMEOFDAY, SELECT \<lparr>tv_sec = 0, tv_usec = 0\<rparr>, PYERR_CHECKSIGNALS,
      SEM_TRYWAIT 5, GETTIMEOFDAY, SELECT \<lparr>tv_sec = 0, tv_usec = 1000\<rparr>, PYERR_CHECKSIGNALS,
      SEM_TRYWAIT 5, GETTIMEOFDAY, SELECT \<lparr>tv_sec = 0, tv_usec = 2000\<rparr>, PYERR_CHECKSIGNALS,
      SEM_TRYWAIT 5, GETTIMEOFDAY, SELECT \<lparr>tv_sec = 0, tv_usec = 3000\<rparr>, PYERR_CHECKSIGNALS,
      SEM_TRYWAIT 5]"

section \<open>Signed arithmetic on \<open>count\<close>\<close>

lemma sint_succ:
  assumes "sint (c :: c_int) < 2147483647"
  shows "sint (c + 1) = sint c + 1"
proof -
  have lo: "- (2 ^ 31) \<le> sint c" using sint_ge [of c] by simp
  have "sint (c + 1) = signed_take_bit 31 (sint c + 1)"
    by (simp add: sint_word_ariths)
  also have "\<dots> = sint c + 1"
    using lo assms by (simp add: signed_take_bit_int_eq_self_iff)
  finally show ?thesis .
qed

lemma sint_pred:
  assumes "0 <s (c :: c_int)"
  shows "sint (c - 1) = sint c - 1"
proof -
  have pos: "0 < sint c" using assms by (simp add: word_sless_alt)
  have hi: "sint c < 2 ^ 31" using sint_lt [of c] by simp
  have "sint (c - 1) = signed_take_bit 31 (sint c - 1)"
    by (simp add: sint_word_ariths)
  also have "\<dots> = sint c - 1"
    using pos hi by (simp add: signed_take_bit_int_eq_self_iff)
  finally show ?thesis .
qed

section \<open>The local count\<close>

lemma release_post_cases:
  assumes "release_post self w = Some (x, self', w')"
  shows "(self' = self \<and> (\<exists>e. x = Inl (OSError e))) \<or>
         (self' = self\<lparr>count := count self - 1\<rparr> \<and> x = Inr ())"
  using assms by (auto simp: release_post_def split: option.splits if_splits)

lemma acquire_count:
  assumes "Billiard_semlock_acquire H self tid blocking t w = Some (x, self', w')"
  shows "kind self' = kind self \<and> (count self' = count self \<or> count self' = count self + 1)"
  using assms
  by (auto simp: Billiard_semlock_acquire_def split: option.splits if_splits sum.splits)

lemma release_mutex_count:
  assumes "Billiard_semlock_release broken self tid w = Some (x, self', w')"
    and "kind self = RECURSIVE_MUTEX"
  shows "kind self' = kind self \<and>
         (count self' = count self \<or> (0 <s count self \<and> count self' = count self - 1))"
  using assms
  by (auto simp: Billiard_semlock_release_def ISMINE_def dest!: release_post_cases
      split: option.splits if_splits)

lemma invoke_mutex_count:
  assumes "invoke H broken self w m = Some (x, self', w')"
    and "kind self = RECURSIVE_MUTEX"
    and "0 \<le> sint (count self)" and "sint (count self) < 2147483647"
  shows "kind self' = RECURSIVE_MUTEX \<and> 0 \<le> sint (count self') \<and>
         sint (count self') \<le> sint (count self) + 1"
proof (cases m)
  case (Acquire tid b t)
  with assms(1) obtain y where
    "Billiard_semlock_acquire H self tid b t w = Some (y, self', w')"
    by (auto split: option.splits)
  from acquire_count [OF this] assms(2-4) show ?thesis
    by (auto simp: sint_succ)
next
  case (Release tid)
  with assms(1) obtain y where
    "Billiard_semlock_release broken self tid w = Some (y, self', w')"
    by (auto split: option.splits)
  from release_mutex_count [OF this assms(2)] assms(2-4) show ?thesis
    by (auto simp: sint_pred word_sless_alt)
next
  case AfterFork
  with assms show ?thesis by (auto simp: Billiard_semlock_afterfork_def)
qed

lemma invoke_all_mutex_count:
  assumes "invoke_all H broken self w ms = Some (xs, self', w')"
    and "kind self = RECURSIVE_MUTEX"
    and "0 \<le> sint (count self)" and "sint (count self) + int (length ms) < 2147483648"
  shows "0 \<le> sint (count self')"
  using assms
proof (induction ms arbitrary: self w xs)
  case Nil
  then show ?case by simp
next
  case (Cons m ms)
  from Cons.prems(1) obtain x s1 w1 ys where
    step: "invoke H broken self w m = Some (x, s1, w1)" and
    rest: "invoke_all H broken s1 w1 ms = Some (ys, self', w')"
    by (auto split: option.splits)
  from invoke_mutex_count [OF step Cons.prems(2,3)] Cons.prems(4)
  have "kind s1 = RECURSIVE_MUTEX" "0 \<le> sint (count s1)"
    "sint (count s1) \<le> sint (count self) + 1"
    by auto
  with Cons.IH [OF rest] Cons.prems(4) show ?case by auto
qed

lemma newsemlockobject_fresh:
  assumes "Billiard_newsemlockobject h k mv nm w = Some (Inr self, w')"
  shows "count self = 0 \<and> last_tid self = 0 \<and> kind self = k \<and> maxvalue self = mv \<and>
         handle self = h \<and> name self = nm"
  using assms by (auto simp: Billiard_newsemlockobject_def split: option.splits if_splits)

lemma rebuild_fresh:
  assumes "Billiard_semlock_rebuild ms_windows h k mv nm w = Some (Inr self, w')"
  shows "count self = 0 \<and> last_tid self = 0 \<and> kind self = k"
proof -
  from assms obtain h' w1 where
    "Billiard_newsemlockobject h' k mv nm w1 = Some (Inr self, w')"
    by (auto simp: Billiard_semlock_rebuild_def split: option.splits if_splits)
  from newsemlockobject_fresh [OF this] show ?thesis by simp
qed

text \<open>
  Claim C1, as amended. The count of an instance of kind \<open>RECURSIVE_MUTEX\<close> that
  \<open>Billiard_newsemlockobject\<close> builds (on creation), or that \<open>_rebuild\<close> returns (on
  attach), is 0, and after any sequence of fewer than \<open>2^31\<close> calls of acquire, release
  and \<open>_after_fork\<close>, by any threads and whatever the environment answers, it is not
  negative. (The bound keeps the 32-bit counter from overflowing.) Nothing of the kind
  holds for a semaphore, whose release takes one off the count after every post.
\<close>

theorem mutex_count_nonneg:
  assumes "Billiard_newsemlockobject h RECURSIVE_MUTEX mv nm w0 = Some (Inr self, w1) \<or>
           Billiard_semlock_rebuild ms_windows h RECURSIVE_MUTEX mv nm w0 = Some (Inr self, w1)"
    and "invoke_all H broken self w ms = Some (xs, self', w')"
    and "length ms < 2147483648"
  shows "count self = 0 \<and> 0 \<le> sint (count self')"
proof -
  from assms(1) newsemlockobject_fresh [of h RECURSIVE_MUTEX mv nm w0 self w1]
    rebuild_fresh [of ms_windows h RECURSIVE_MUTEX mv nm w0 self w1]
  have f: "count self = 0" "kind self = RECURSIVE_MUTEX" by auto
  from invoke_all_mutex_count [OF assms(2) f(2)] f(1) assms(3)
  show ?thesis by simp
qed

theorem mutex_count_nonneg_witness:
  "Billiard_newsemlockobject 5 RECURSIVE_MUTEX 1 None (script [answer 1]) =
     Some (Inr fresh_mutex, \<lparr>answers = [], trace = [PYOBJECT_NEW], errno = E_NONE\<rparr>) \<and>
   invoke_all mp_h False fresh_mutex (script [answer 0, answer 0])
     [Acquire 7 False Py_None, Acquire 7 True Py_None, Release 7, Release 7, Release 7] =
     Some ([Acquired (Inr True), Acquired (Inr True), Released (Inr ()), Released (Inr ()),
            Released (Inl AssertionError)],
           fresh_mutex\<lparr>last_tid := 7\<rparr>,
           \<lparr>answers = [], trace = [SEM_TRYWAIT 5, SEM_POST 5], errno = E_NONE\<rparr>) \<and>
   count fresh_mutex = 0 \<and> 0 \<le> sint (count (fresh_mutex\<lparr>last_tid := 7\<rparr>))"
proof -
  have new: "Billiard_newsemlockobject 5 RECURSIVE_MUTEX 1 None (script [answer 1]) =
     Some (Inr fresh_mutex, \<lparr>answers = [], trace = [PYOBJECT_NEW], errno = E_NONE\<rparr>)"
    by (simp add: Billiard_newsemlockobject_def extcall_def script_def answer_def
        fresh_mutex_def)
  have run: "invoke_all mp_h False fresh_mutex (script [answer 0, answer 0])
     [Acquire 7 False Py_None, Acquire 7 True Py_None, Release 7, Release 7, Release 7] =
     Some ([Acquired (Inr True), Acquired (Inr True), Released (Inr ()), Released (Inr ()),
            Released (Inl AssertionError)],
           fresh_mutex\<lparr>last_tid := 7\<rparr>,
           \<lparr>answers = [], trace = [SEM_TRYWAIT 5, SEM_POST 5], errno = E_NONE\<rparr>)"
    by (simp add: Billiard_semlock_acquire_def Billiard_semlock_release_def release_post_def
        acquire_deadline_def acquire_wait.simps ISMINE_def syscall_def extcall_def script_def
        answer_def fresh_mutex_def mp_h_def word_sless_alt)
  have len: "length [Acquire 7 False Py_None, Acquire 7 True Py_None, Release 7, Release 7,
      Release 7] < 2147483648"
    by simp
  from mutex_count_nonneg [OF disjI1 [OF new] run len] new run show ?thesis by simp
qed

text \<open>
  Claim C1 as stated fails: a semaphore created with value 0 and \<open>maxvalue\<close> 1 has
  count 0; one release, for which \<open>sem_getvalue\<close> reports 0 and \<open>sem_post\<close> succeeds,
  leaves the count at \<open>-1\<close>.
\<close>

theorem semaphore_count_negative:
  "Billiard_newsemlockobject 5 SEMAPHORE 1 None (script [answer 1]) =
     Some (Inr fresh_semaphore, \<lparr>answers = [], trace = [PYOBJECT_NEW], errno = E_NONE\<rparr>) \<and>
   Billiard_semlock_release False fresh_semaphore 7 (script [sem_value 0, answer 0]) =
     Some (Inr (), fresh_semaphore\<lparr>count := - 1\<rparr>,
           \<lparr>answers = [], trace = [SEM_GETVALUE 5, SEM_POST 5], errno = E_NONE\<rparr>) \<and>
   Billiard_semlock_count (fresh_semaphore\<lparr>count := - 1\<rparr>) = - 1"
  by (simp add: Billiard_newsemlockobject_def Billiard_semlock_release_def release_post_def
      Billiard_semlock_count_def syscall_def extcall_def script_def answer_def sem_value_def
      fresh_semaphore_def SEMAPHORE_def RECURSIVE_MUTEX_def word_sle_eq)

section \<open>Release by a thread that does not own the lock\<close>

text \<open>
  Claim C5. Release of a \<open>RECURSIVE_MUTEX\<close> by a thread that does not own it (the
  count is 0, or the owner is another thread) raises \<open>AssertionError\<close>; the instance
  and the world are as before, so nothing was posted.
\<close>

theorem release_by_non_owner:
  assumes "kind self = RECURSIVE_MUTEX" and "count self = 0 \<or> last_tid self \<noteq> tid"
  shows "Billiard_semlock_release broken self tid w = Some (Inl AssertionError, self, w)"
  using assms by (auto simp: Billiard_semlock_release_def ISMINE_def)

theorem release_by_non_owner_witness:
  "kind (fresh_mutex\<lparr>count := 2, last_tid := 7\<rparr>) = RECURSIVE_MUTEX \<and>
   (count (fresh_mutex\<lparr>count := 2, last_tid := 7\<rparr>) = 0 \<or>
    last_tid (fresh_mutex\<lparr>count := 2, last_tid := 7\<rparr>) \<noteq> 8) \<and>
   Billiard_semlock_release False (fresh_mutex\<lparr>count := 2, last_tid := 7\<rparr>) 8
       (script [answer 0]) =
     Some (Inl AssertionError, fresh_mutex\<lparr>count := 2, last_tid := 7\<rparr>, script [answer 0])"
proof -
  have k: "kind (fresh_mutex\<lparr>count := 2, last_tid := 7\<rparr>) = RECURSIVE_MUTEX"
    by (simp add: fresh_mutex_def)
  have n: "count (fresh_mutex\<lparr>count := 2, last_tid := 7\<rparr>) = 0 \<or>
    last_tid (fresh_mutex\<lparr>count := 2, last_tid := 7\<rparr>) \<noteq> 8"
    by simp
  from release_by_non_owner [OF k n] k n show ?thesis by blast
qed

section \<open>After fork, attach, and the value query\<close>

text \<open>
  Claim C7. \<open>_after_fork\<close> sets the count to 0 whatever it was and changes nothing
  else: handle, kind, maxvalue, name and owner of the instance are as before, the
  world is as before (no call is made, so the semaphore of the operating system is not
  touched), and \<open>_count\<close> then returns 0.
\<close>

theorem afterfork_resets_count_only:
  "Billiard_semlock_afterfork self w = (self\<lparr>count := 0\<rparr>, w) \<and>
   count (fst (Billiard_semlock_afterfork self w)) = 0 \<and>
   handle (fst (Billiard_semlock_afterfork self w)) = handle self \<and>
   kind (fst (Billiard_semlock_afterfork self w)) = kind self \<and>
   maxvalue (fst (Billiard_semlock_afterfork self w)) = maxvalue self \<and>
   name (fst (Billiard_semlock_afterfork self w)) = name self \<and>
   last_tid (fst (Billiard_semlock_afterfork self w)) = last_tid self \<and>
   snd (Billiard_semlock_afterfork self w) = w \<and>
   Billiard_semlock_count (fst (Billiard_semlock_afterfork self w)) = 0"
  by (simp add: Billiard_semlock_afterfork_def Billiard_semlock_count_def)

text \<open>
  Claim C8. An instance that \<open>_rebuild\<close> returns, on either platform and whatever the
  environment answers (the value of the semaphore is never asked for), has count 0 and
  owner 0: no thread owns it, and \<open>_count\<close> returns 0.
\<close>

theorem rebuild_starts_unowned:
  assumes "Billiard_semlock_rebuild ms_windows h k mv nm w = Some (Inr self, w')"
  shows "count self = 0 \<and> last_tid self = 0 \<and> \<not> Billiard_semlock_ismine self tid \<and>
         Billiard_semlock_count self = 0"
  using rebuild_fresh [OF assms]
  by (simp add: Billiard_semlock_ismine_def ISMINE_def Billiard_semlock_count_def)

theorem rebuild_starts_unowned_witness:
  "Billiard_semlock_rebuild False 0 SEMAPHORE 3 (Some ''/mp-1'') (script [answer 9, answer 1]) =
     Some (Inr \<lparr>handle = 9, last_tid = 0, count = 0, maxvalue = 3, kind = SEMAPHORE,
                 name = Some ''/mp-1''\<rparr>,
           \<lparr>answers = [], trace = [SEM_OPEN ''/mp-1'', PYOBJECT_NEW], errno = E_NONE\<rparr>) \<and>
   count \<lparr>handle = 9, last_tid = 0, count = 0, maxvalue = 3, kind = SEMAPHORE,
          name = Some ''/mp-1''\<rparr> = 0 \<and>
   \<not> Billiard_semlock_ismine \<lparr>handle = 9, last_tid = 0, count = 0, maxvalue = 3,
          kind = SEMAPHORE, name = Some ''/mp-1''\<rparr> 0"
proof -
  have r: "Billiard_semlock_rebuild False 0 SEMAPHORE 3 (Some ''/mp-1'')
      (script [answer 9, answer 1]) =
     Some (Inr \<lparr>handle = 9, last_tid = 0, count = 0, maxvalue = 3, kind = SEMAPHORE,
                 name = Some ''/mp-1''\<rparr>,
           \<lparr>answers = [], trace = [SEM_OPEN ''/mp-1'', PYOBJECT_NEW], errno = E_NONE\<rparr>)"
    by (simp add: Billiard_semlock_rebuild_def Billiard_newsemlockobject_def syscall_def
        extcall_def script_def answer_def SEM_FAILED_def)
  from rebuild_starts_unowned [OF r, of 0] r show ?thesis by simp
qed

text \<open>
  Claim C9. A number that \<open>_get_value\<close> returns is not negative, and it is 0 when
  \<open>sem_getvalue\<close> reported a negative value.
\<close>

theorem getvalue_never_negative:
  assumes "Billiard_semlock_getvalue H broken self w = Some (Inr v, w')"
  shows "0 \<le> v \<and> (\<forall>r rs. answers w = r # rs \<and> out_sval r <s 0 \<longrightarrow> v = 0)"
  using assms
  by (auto simp: Billiard_semlock_getvalue_def syscall_def extcall_def word_sless_alt
      split: option.splits if_splits list.splits)

theorem getvalue_never_negative_witness:
  "Billiard_semlock_getvalue mp_h False fresh_semaphore (script [sem_value (- 3)]) =
     Some (Inr 0, \<lparr>answers = [], trace = [SEM_GETVALUE 5], errno = E_NONE\<rparr>) \<and>
   out_sval (sem_value (- 3)) <s 0"
proof -
  have g: "Billiard_semlock_getvalue mp_h False fresh_semaphore (script [sem_value (- 3)]) =
     Some (Inr 0, \<lparr>answers = [], trace = [SEM_GETVALUE 5], errno = E_NONE\<rparr>)"
    by (simp add: Billiard_semlock_getvalue_def syscall_def extcall_def script_def
        sem_value_def fresh_semaphore_def word_sless_alt)
  have n: "out_sval (sem_value (- 3)) <s 0"
    by (simp add: sem_value_def word_sless_alt)
  from getvalue_never_negative [OF g] g n show ?thesis by simp
qed

section \<open>The overflow guard of release\<close>

lemma syscall_Some:
  "syscall c w = Some (r, w') \<longleftrightarrow>
     (\<exists>rs. answers w = r # rs \<and>
        w' = (if ret r < 0 then w\<lparr>answers := rs, trace := trace w @ [c], errno := err r\<rparr>
              else w\<lparr>answers := rs, trace := trace w @ [c]\<rparr>))"
  by (auto simp: syscall_def extcall_def split: list.splits)

lemma release_post_trace:
  assumes "release_post self w = Some (x, self', w')"
  shows "trace w' = trace w @ [SEM_POST (handle self)] \<and>
         (\<exists>r rs. answers w = r # rs \<and> answers w' = rs \<and>
            (ret r < 0 \<longrightarrow> x = Inl (OSError (err r)) \<and> self' = self) \<and>
            (0 \<le> ret r \<longrightarrow> x = Inr () \<and> self' = self\<lparr>count := count self - 1\<rparr>))"
proof -
  from assms obtain r w1 where s: "syscall (SEM_POST (handle self)) w = Some (r, w1)"
    by (auto simp: release_post_def split: option.splits)
  then obtain rs where a: "answers w = r # rs"
    and w1: "w1 = (if ret r < 0
        then w\<lparr>answers := rs, trace := trace w @ [SEM_POST (handle self)], errno := err r\<rparr>
        else w\<lparr>answers := rs, trace := trace w @ [SEM_POST (handle self)]\<rparr>)"
    by (auto simp: syscall_Some)
  show ?thesis
  proof (cases "ret r < 0")
    case True
    with assms s a w1 show ?thesis by (auto simp: release_post_def)
  next
    case False
    with assms s a w1 show ?thesis by (auto simp: release_post_def)
  qed
qed

lemma syscall_None: "syscall c w = None \<longleftrightarrow> answers w = []"
  by (auto simp: syscall_def extcall_def split: list.splits)

lemma syscall_Cons:
  "answers w = r # rs \<Longrightarrow>
   syscall c w = Some (r, if ret r < 0
       then w\<lparr>answers := rs, trace := trace w @ [c], errno := err r\<rparr>
       else w\<lparr>answers := rs, trace := trace w @ [c]\<rparr>)"
  by (simp add: syscall_def extcall_def)

lemma release_getvalue_guard:
  assumes rel: "Billiard_semlock_release False self tid w = Some (x, self', w')"
    and k: "kind self \<noteq> RECURSIVE_MUTEX"
  shows "\<exists>r rs. answers w = r # rs \<and>
         (0 \<le> ret r \<and> maxvalue self \<le>s out_sval r \<longrightarrow>
            x = Inl ValueError \<and> self' = self \<and>
            trace w' = trace w @ [SEM_GETVALUE (handle self)]) \<and>
         (trace w' = trace w @ [SEM_GETVALUE (handle self)] \<and> x \<noteq> Inr () \<or>
          trace w' = trace w @ [SEM_GETVALUE (handle self), SEM_POST (handle self)] \<and>
            0 \<le> ret r \<and> out_sval r <s maxvalue self)"
proof (cases "answers w")
  case Nil
  then have "syscall (SEM_GETVALUE (handle self)) w = None" by (simp add: syscall_None)
  with rel k show ?thesis by (simp add: Billiard_semlock_release_def)
next
  case (Cons r rs)
  note sc = syscall_Cons [OF Cons, of "SEM_GETVALUE (handle self)"]
  show ?thesis
  proof (cases "ret r < 0")
    case True
    with rel k sc have "x = Inl (OSError (err r))" "self' = self"
      "w' = w\<lparr>answers := rs, trace := trace w @ [SEM_GETVALUE (handle self)], errno := err r\<rparr>"
      by (auto simp: Billiard_semlock_release_def)
    with Cons True show ?thesis by simp
  next
    case nonneg: False
    show ?thesis
    proof (cases "maxvalue self \<le>s out_sval r")
      case True
      with rel k sc nonneg have "x = Inl ValueError" "self' = self"
        "w' = w\<lparr>answers := rs, trace := trace w @ [SEM_GETVALUE (handle self)]\<rparr>"
        by (auto simp: Billiard_semlock_release_def)
      with Cons show ?thesis by simp
    next
      case False
      with rel k sc nonneg have
        "release_post self (w\<lparr>answers := rs, trace := trace w @ [SEM_GETVALUE (handle self)]\<rparr>) =
           Some (x, self', w')"
        by (simp add: Billiard_semlock_release_def)
      from release_post_trace [OF this] False nonneg Cons show ?thesis
        by (simp add: signed.not_le)
    qed
  qed
qed

lemma release_trywait_probe:
  assumes rel: "Billiard_semlock_release True self tid w = Some (x, self', w')"
    and k: "kind self \<noteq> RECURSIVE_MUTEX" and m: "maxvalue self = 1"
  shows "\<exists>r rs. answers w = r # rs \<and>
         (0 \<le> ret r \<longrightarrow>
            x \<noteq> Inr () \<and> self' = self \<and>
            trace w' = trace w @ [SEM_TRYWAIT (handle self), SEM_POST (handle self)] \<and>
            (\<forall>r2 rs2. rs = r2 # rs2 \<and> 0 \<le> ret r2 \<longrightarrow> x = Inl ValueError)) \<and>
         (ret r < 0 \<and> err r \<noteq> EAGAIN \<longrightarrow>
            x = Inl (OSError (err r)) \<and> self' = self \<and>
            trace w' = trace w @ [SEM_TRYWAIT (handle self)]) \<and>
         (ret r < 0 \<and> err r = EAGAIN \<longrightarrow>
            trace w' = trace w @ [SEM_TRYWAIT (handle self), SEM_POST (handle self)])"
proof (cases "answers w")
  case Nil
  then have "syscall (SEM_TRYWAIT (handle self)) w = None" by (simp add: syscall_None)
  with rel k m show ?thesis by (simp add: Billiard_semlock_release_def)
next
  case (Cons r rs)
  note sc = syscall_Cons [OF Cons, of "SEM_TRYWAIT (handle self)"]
  show ?thesis
  proof (cases "ret r < 0")
    case True
    show ?thesis
    proof (cases "err r = EAGAIN")
      case True
      with rel k m sc \<open>ret r < 0\<close> have
        "release_post self (w\<lparr>answers := rs, trace := trace w @ [SEM_TRYWAIT (handle self)],
            errno := err r\<rparr>) = Some (x, self', w')"
        by (simp add: Billiard_semlock_release_def)
      from release_post_trace [OF this] True \<open>ret r < 0\<close> Cons show ?thesis by simp
    next
      case False
      with rel k m sc \<open>ret r < 0\<close> have "x = Inl (OSError (err r))" "self' = self"
        "w' = w\<lparr>answers := rs, trace := trace w @ [SEM_TRYWAIT (handle self)], errno := err r\<rparr>"
        by (auto simp: Billiard_semlock_release_def)
      with Cons False \<open>ret r < 0\<close> show ?thesis by simp
    qed
  next
    case nonneg: False
    let ?w1 = "w\<lparr>answers := rs, trace := trace w @ [SEM_TRYWAIT (handle self)]\<rparr>"
    show ?thesis
    proof (cases rs)
      case Nil
      then have "syscall (SEM_POST (handle self)) ?w1 = None" by (simp add: syscall_None)
      with rel k m sc nonneg show ?thesis by (simp add: Billiard_semlock_release_def)
    next
      case (Cons r2 rs2)
      then have a: "answers ?w1 = r2 # rs2" by simp
      note sc2 = syscall_Cons [OF a, of "SEM_POST (handle self)"]
      from rel k m sc nonneg sc2 have "self' = self"
        "trace w' = trace w @ [SEM_TRYWAIT (handle self), SEM_POST (handle self)]"
        "x = (if ret r2 < 0 then Inl (OSError (err r2)) else Inl ValueError)"
        by (auto simp: Billiard_semlock_release_def split: if_splits)
      with \<open>answers w = r # rs\<close> Cons nonneg show ?thesis by auto
    qed
  qed
qed

lemma release_mutex_trace:
  assumes rel: "Billiard_semlock_release broken self tid w = Some (x, self', w')"
    and k: "kind self = RECURSIVE_MUTEX"
  shows "trace w' = trace w \<or>
      trace w' = trace w @ [SEM_POST (handle self)] \<and> ISMINE self tid \<and> \<not> 1 <s count self"
proof (cases "ISMINE self tid \<and> \<not> 1 <s count self")
  case True
  with rel k have "release_post self w = Some (x, self', w')"
    by (simp add: Billiard_semlock_release_def)
  from release_post_trace [OF this] True show ?thesis by simp
next
  case False
  with rel k have "w' = w"
    by (auto simp: Billiard_semlock_release_def split: if_splits)
  then show ?thesis by simp
qed

lemma release_broken_unguarded:
  assumes rel: "Billiard_semlock_release True self tid w = Some (x, self', w')"
    and k: "kind self \<noteq> RECURSIVE_MUTEX" and m: "maxvalue self \<noteq> 1"
  shows "trace w' = trace w @ [SEM_POST (handle self)]"
proof -
  from rel k m have "release_post self w = Some (x, self', w')"
    by (simp add: Billiard_semlock_release_def)
  from release_post_trace [OF this] show ?thesis by simp
qed

text \<open>
  Claim C2, as amended. The overflow guard stands in the branch for kinds other than
  \<open>RECURSIVE_MUTEX\<close> only. There, without \<open>HAVE_BROKEN_SEM_GETVALUE\<close>, release first
  calls \<open>sem_getvalue\<close>: a value at or above \<open>maxvalue\<close> is refused with \<open>ValueError\<close>,
  nothing is posted and the instance is unchanged, and a post only ever follows a read
  below \<open>maxvalue\<close>. With \<open>HAVE_BROKEN_SEM_GETVALUE\<close> and \<open>maxvalue\<close> 1 release first
  probes with \<open>sem_trywait\<close>: a probe that succeeds is undone by a post and the release
  is refused; with another \<open>maxvalue\<close> it posts at once. A \<open>RECURSIVE_MUTEX\<close> makes no
  call but, on its last recursive release, the post.
\<close>

theorem release_guard_only_for_semaphore:
  assumes "Billiard_semlock_release broken self tid w = Some (x, self', w')"
  shows
  "(kind self \<noteq> RECURSIVE_MUTEX \<and> \<not> broken \<longrightarrow>
      (\<exists>r rs. answers w = r # rs \<and>
         (0 \<le> ret r \<and> maxvalue self \<le>s out_sval r \<longrightarrow>
            x = Inl ValueError \<and> self' = self \<and>
            trace w' = trace w @ [SEM_GETVALUE (handle self)]) \<and>
         (trace w' = trace w @ [SEM_GETVALUE (handle self)] \<and> x \<noteq> Inr () \<or>
          trace w' = trace w @ [SEM_GETVALUE (handle self), SEM_POST (handle self)] \<and>
            0 \<le> ret r \<and> out_sval r <s maxvalue self))) \<and>
   (kind self \<noteq> RECURSIVE_MUTEX \<and> broken \<and> maxvalue self = 1 \<longrightarrow>
      (\<exists>r rs. answers w = r # rs \<and>
         (0 \<le> ret r \<longrightarrow>
            x \<noteq> Inr () \<and> self' = self \<and>
            trace w' = trace w @ [SEM_TRYWAIT (handle self), SEM_POST (handle self)] \<and>
            (\<forall>r2 rs2. rs = r2 # rs2 \<and> 0 \<le> ret r2 \<longrightarrow> x = Inl ValueError)) \<and>
         (ret r < 0 \<and> err r \<noteq> EAGAIN \<longrightarrow>
            x = Inl (OSError (err r)) \<and> self' = self \<and>
            trace w' = trace w @ [SEM_TRYWAIT (handle self)]) \<and>
         (ret r < 0 \<and> err r = EAGAIN \<longrightarrow>
            trace w' = trace w @ [SEM_TRYWAIT (handle self), SEM_POST (handle self)]))) \<and>
   (kind self \<noteq> RECURSIVE_MUTEX \<and> broken \<and> maxvalue self \<noteq> 1 \<longrightarrow>
      trace w' = trace w @ [SEM_POST (handle self)]) \<and>
   (kind self = RECURSIVE_MUTEX \<longrightarrow>
      trace w' = trace w \<or>
      trace w' = trace w @ [SEM_POST (handle self)] \<and> ISMINE self tid \<and> \<not> 1 <s count self)"
proof (intro conjI impI)
  assume h: "kind self \<noteq> RECURSIVE_MUTEX \<and> \<not> broken"
  with assms have "Billiard_semlock_release False self tid w = Some (x, self', w')" by simp
  from release_getvalue_guard [OF this] h show "\<exists>r rs. answers w = r # rs \<and>
         (0 \<le> ret r \<and> maxvalue self \<le>s out_sval r \<longrightarrow>
            x = Inl ValueError \<and> self' = self \<and>
            trace w' = trace w @ [SEM_GETVALUE (handle self)]) \<and>
         (trace w' = trace w @ [SEM_GETVALUE (handle self)] \<and> x \<noteq> Inr () \<or>
          trace w' = trace w @ [SEM_GETVALUE (handle self), SEM_POST (handle self)] \<and>
            0 \<le> ret r \<and> out_sval r <s maxvalue self)"
    by simp
next
  assume h: "kind self \<noteq> RECURSIVE_MUTEX \<and> broken \<and> maxvalue self = 1"
  with assms have "Billiard_semlock_release True self tid w = Some (x, self', w')" by simp
  from release_trywait_probe [OF this] h show "\<exists>r rs. answers w = r # rs \<and>
         (0 \<le> ret r \<longrightarrow>
            x \<noteq> Inr () \<and> self' = self \<and>
            trace w' = trace w @ [SEM_TRYWAIT (handle self), SEM_POST (handle self)] \<and>
            (\<forall>r2 rs2. rs = r2 # rs2 \<and> 0 \<le> ret r2 \<longrightarrow> x = Inl ValueError)) \<and>
         (ret r < 0 \<and> err r \<noteq> EAGAIN \<longrightarrow>
            x = Inl (OSError (err r)) \<and> self' = self \<and>
            trace w' = trace w @ [SEM_TRYWAIT (handle self)]) \<and>
         (ret r < 0 \<and> err r = EAGAIN \<longrightarrow>
            trace w' = trace w @ [SEM_TRYWAIT (handle self), SEM_POST (handle self)])"
    by simp
next
  assume h: "kind self \<noteq> RECURSIVE_MUTEX \<and> broken \<and> maxvalue self \<noteq> 1"
  with assms have "Billiard_semlock_release True self tid w = Some (x, self', w')" by simp
  from release_broken_unguarded [OF this] h
  show "trace w' = trace w @ [SEM_POST (handle self)]" by simp
next
  assume "kind self = RECURSIVE_MUTEX"
  from release_mutex_trace [OF assms this]
  show "trace w' = trace w \<or>
      trace w' = trace w @ [SEM_POST (handle self)] \<and> ISMINE self tid \<and> \<not> 1 <s count self" .
qed

text \<open>
  Claim C2 as stated fails for the last recursive release of a \<open>RECURSIVE_MUTEX\<close>: with
  count 1 and the caller the owner, release goes to \<open>sem_post\<close> as its first and only
  call, on either kind of platform; no value is read and no probe is made.
\<close>

theorem mutex_release_posts_unguarded:
  "Billiard_semlock_release False (fresh_mutex\<lparr>count := 1, last_tid := 7\<rparr>) 7 (script [answer 0]) =
     Some (Inr (), fresh_mutex\<lparr>count := 0, last_tid := 7\<rparr>,
           \<lparr>answers = [], trace = [SEM_POST 5], errno = E_NONE\<rparr>) \<and>
   Billiard_semlock_release True (fresh_mutex\<lparr>count := 1, last_tid := 7\<rparr>) 7 (script [answer 0]) =
     Some (Inr (), fresh_mutex\<lparr>count := 0, last_tid := 7\<rparr>,
           \<lparr>answers = [], trace = [SEM_POST 5], errno = E_NONE\<rparr>)"
  by (simp add: Billiard_semlock_release_def release_post_def ISMINE_def syscall_def extcall_def
      script_def answer_def fresh_mutex_def word_sless_alt)

theorem release_guard_only_for_semaphore_witness:
  "Billiard_semlock_release False fresh_semaphore 7 (script [sem_value 1, answer 0]) =
     Some (Inl ValueError, fresh_semaphore,
           \<lparr>answers = [answer 0], trace = [SEM_GETVALUE 5], errno = E_NONE\<rparr>) \<and>
   kind fresh_semaphore \<noteq> RECURSIVE_MUTEX \<and>
   maxvalue fresh_semaphore \<le>s out_sval (sem_value 1)"
proof -
  have r: "Billiard_semlock_release False fresh_semaphore 7 (script [sem_value 1, answer 0]) =
     Some (Inl ValueError, fresh_semaphore,
           \<lparr>answers = [answer 0], trace = [SEM_GETVALUE 5], errno = E_NONE\<rparr>)"
    by (simp add: Billiard_semlock_release_def syscall_def extcall_def script_def sem_value_def
        fresh_semaphore_def SEMAPHORE_def RECURSIVE_MUTEX_def word_sle_eq)
  have k: "kind fresh_semaphore \<noteq> RECURSIVE_MUTEX"
    by (simp add: fresh_semaphore_def SEMAPHORE_def RECURSIVE_MUTEX_def)
  have m: "maxvalue fresh_semaphore \<le>s out_sval (sem_value 1)"
    by (simp add: fresh_semaphore_def sem_value_def word_sle_eq)
  from release_guard_only_for_semaphore [OF r] r k m show ?thesis by simp
qed


section \<open>Recursive acquisition\<close>

lemma sint_of_nat_count:
  assumes "k < 2147483648"
  shows "sint (of_nat k :: c_int) = int k"
proof -
  have "sint (of_nat k :: c_int) = signed_take_bit 31 (int k)"
    by (simp add: signed_of_nat signed_take_bit_take_bit)
  also have "\<dots> = int k"
    using assms by (simp add: signed_take_bit_int_eq_self_iff)
  finally show ?thesis .
qed

lemma acquire_owned:
  assumes "kind self = RECURSIVE_MUTEX" and "ISMINE self tid"
  shows "Billiard_semlock_acquire H self tid blocking t w =
           Some (Inr True, self\<lparr>count := count self + 1\<rparr>, w)"
  using assms by (simp add: Billiard_semlock_acquire_def)

lemma release_owned_inner:
  assumes "kind self = RECURSIVE_MUTEX" and "ISMINE self tid" and "1 <s count self"
  shows "Billiard_semlock_release broken self tid w =
           Some (Inr (), self\<lparr>count := count self - 1\<rparr>, w)"
  using assms by (simp add: Billiard_semlock_release_def)

lemma release_owned_last:
  assumes "kind self = RECURSIVE_MUTEX" and "ISMINE self tid" and "count self = 1"
  shows "Billiard_semlock_release broken self tid w = release_post self w"
  using assms by (simp add: Billiard_semlock_release_def word_sless_alt)

lemma acquires_owned:
  assumes "kind s = RECURSIVE_MUTEX" and "last_tid s = tid" and "count s = of_nat c"
    and "0 < c" and "c + length args < 2147483648"
  shows "invoke_all H broken s w (map (\<lambda>(b, t). Acquire tid b t) args @ ms) =
         map_option (\<lambda>(xs, s', w'). (replicate (length args) (Acquired (Inr True)) @ xs, s', w'))
           (invoke_all H broken (s\<lparr>count := of_nat (c + length args)\<rparr>) w ms)"
  using assms
proof (induction args arbitrary: s c)
  case Nil
  then have "s\<lparr>count := of_nat c\<rparr> = s" by simp
  then show ?case by (simp add: option.map_ident case_prod_unfold)
next
  case (Cons a args)
  obtain b t where a: "a = (b, t)" by (cases a)
  from Cons.prems have own: "ISMINE s tid"
    by (simp add: ISMINE_def word_sless_alt sint_of_nat_count)
  let ?s1 = "s\<lparr>count := of_nat (Suc c)\<rparr>"
  from Cons.prems have s1: "s\<lparr>count := count s + 1\<rparr> = ?s1" by simp
  have step: "invoke H broken s w (Acquire tid b t) = Some (Acquired (Inr True), ?s1, w)"
    using acquire_owned [OF Cons.prems(1) own, of H b t w] s1 by simp
  have ih: "invoke_all H broken ?s1 w (map (\<lambda>(b, t). Acquire tid b t) args @ ms) =
         map_option (\<lambda>(xs, s', w'). (replicate (length args) (Acquired (Inr True)) @ xs, s', w'))
           (invoke_all H broken (?s1\<lparr>count := of_nat (Suc c + length args)\<rparr>) w ms)"
    using Cons.prems by (intro Cons.IH) auto
  show ?case
    using step ih a by (simp add: option.map_comp comp_def case_prod_unfold split: option.splits)
qed

lemma releases_owned:
  assumes "kind s = RECURSIVE_MUTEX" and "last_tid s = tid" and "count s = of_nat (Suc c)"
    and "Suc c < 2147483648"
  shows "invoke_all H broken s w (replicate c (Release tid) @ ms) =
         map_option (\<lambda>(xs, s', w'). (replicate c (Released (Inr ())) @ xs, s', w'))
           (invoke_all H broken (s\<lparr>count := 1\<rparr>) w ms)"
  using assms
proof (induction c arbitrary: s)
  case 0
  then have "s\<lparr>count := 1\<rparr> = s" by simp
  then show ?case by (simp add: option.map_ident case_prod_unfold)
next
  case (Suc c)
  from Suc.prems have own: "ISMINE s tid" and more: "1 <s count s"
    by (simp_all add: ISMINE_def word_sless_alt sint_of_nat_count del: of_nat_Suc)
  let ?s1 = "s\<lparr>count := of_nat (Suc c)\<rparr>"
  from Suc.prems have s1: "s\<lparr>count := count s - 1\<rparr> = ?s1" by simp
  have step: "invoke H broken s w (Release tid) = Some (Released (Inr ()), ?s1, w)"
    using release_owned_inner [OF Suc.prems(1) own more, of broken w] s1 by simp
  have ih: "invoke_all H broken ?s1 w (replicate c (Release tid) @ ms) =
         map_option (\<lambda>(xs, s', w'). (replicate c (Released (Inr ())) @ xs, s', w'))
           (invoke_all H broken (?s1\<lparr>count := 1\<rparr>) w ms)"
    using Suc.prems by (intro Suc.IH) auto
  show ?case
    using step ih by (simp add: option.map_comp comp_def case_prod_unfold split: option.splits)
qed


lemma acquire_blocking_success:
  assumes "\<not> ISMINE self tid" and "answers w = r # rs" and "ret r = 0"
  shows "Billiard_semlock_acquire H self tid True Py_None w =
           Some (Inr True, self\<lparr>count := count self + 1, last_tid := tid\<rparr>,
                 w\<lparr>answers := rs, trace := trace w @ [SEM_WAIT (handle self)]\<rparr>)"
proof -
  have "acquire_wait H (handle self) True Py_None \<lparr>ts_sec = 0, ts_nsec = 0\<rparr> w =
          Some (0, w\<lparr>answers := rs, trace := trace w @ [SEM_WAIT (handle self)]\<rparr>)"
    using assms(3) syscall_Cons [OF assms(2), of "SEM_WAIT (handle self)"]
    by (subst acquire_wait.simps) simp
  with assms(1) show ?thesis
    by (simp add: Billiard_semlock_acquire_def acquire_deadline_def)
qed

lemma release_post_success:
  assumes "answers w = r # rs" and "0 \<le> ret r"
  shows "release_post self w =
           Some (Inr (), self\<lparr>count := count self - 1\<rparr>,
                 w\<lparr>answers := rs, trace := trace w @ [SEM_POST (handle self)]\<rparr>)"
  using assms(2) syscall_Cons [OF assms(1), of "SEM_POST (handle self)"]
  by (simp add: release_post_def)

lemma round_trip:
  assumes k: "kind self = RECURSIVE_MUTEX" and c: "count self = 0"
    and a: "answers w = r1 # r2 # rs" and r1: "ret r1 = 0" and r2: "0 \<le> ret r2"
    and n: "length args < 2147483647"
  shows "invoke_all H broken self w
           (Acquire tid True Py_None # map (\<lambda>(b, t). Acquire tid b t) args @
            replicate (Suc (length args)) (Release tid)) =
         Some (replicate (Suc (length args)) (Acquired (Inr True)) @
               replicate (Suc (length args)) (Released (Inr ())),
               self\<lparr>count := 0, last_tid := tid\<rparr>,
               w\<lparr>answers := rs,
                 trace := trace w @ [SEM_WAIT (handle self), SEM_POST (handle self)]\<rparr>)"
proof -
  let ?h = "handle self"
  let ?w1 = "w\<lparr>answers := r2 # rs, trace := trace w @ [SEM_WAIT ?h]\<rparr>"
  let ?w2 = "w\<lparr>answers := rs, trace := trace w @ [SEM_WAIT ?h, SEM_POST ?h]\<rparr>"
  let ?s1 = "self\<lparr>count := 1, last_tid := tid\<rparr>"
  let ?n = "length args"
  let ?R = "Release tid"
  from c have not_mine: "\<not> ISMINE self tid" by (simp add: ISMINE_def word_sless_alt)
  have first: "invoke H broken self w (Acquire tid True Py_None) = Some (Acquired (Inr True), ?s1, ?w1)"
    using acquire_blocking_success [OF not_mine a r1, of H] c by simp
  have last: "invoke_all H broken (?s1\<lparr>count := 1\<rparr>) ?w1 [?R] =
      Some ([Released (Inr ())], self\<lparr>count := 0, last_tid := tid\<rparr>, ?w2)"
  proof -
    have own: "ISMINE (?s1\<lparr>count := 1\<rparr>) tid" by (simp add: ISMINE_def word_sless_alt)
    have "answers ?w1 = r2 # rs" by simp
    from release_post_success [OF this r2, of "?s1\<lparr>count := 1\<rparr>"]
    have "release_post (?s1\<lparr>count := 1\<rparr>) ?w1 =
        Some (Inr (), self\<lparr>count := 0, last_tid := tid\<rparr>, ?w2)"
      by simp
    with release_owned_last [of "?s1\<lparr>count := 1\<rparr>" tid broken ?w1] k own
    show ?thesis by simp
  qed
  have down: "invoke_all H broken (?s1\<lparr>count := of_nat (1 + ?n)\<rparr>) ?w1 (replicate ?n ?R @ [?R]) =
      Some (replicate ?n (Released (Inr ())) @ [Released (Inr ())],
            self\<lparr>count := 0, last_tid := tid\<rparr>, ?w2)"
    using releases_owned [of "?s1\<lparr>count := of_nat (1 + ?n)\<rparr>" tid ?n H broken ?w1 "[?R]"]
      k n last
    by simp
  have up: "invoke_all H broken ?s1 ?w1 (map (\<lambda>(b, t). Acquire tid b t) args @ (replicate ?n ?R @ [?R])) =
      Some (replicate ?n (Acquired (Inr True)) @ replicate ?n (Released (Inr ())) @ [Released (Inr ())],
            self\<lparr>count := 0, last_tid := tid\<rparr>, ?w2)"
    using acquires_owned [of ?s1 tid 1 args H broken ?w1 "replicate ?n ?R @ [?R]"] k n down
    by simp
  have shape: "replicate (Suc ?n) ?R = replicate ?n ?R @ [?R]"
    "replicate (Suc ?n) (Released (Inr ()) :: returned) = replicate ?n (Released (Inr ())) @ [Released (Inr ())]"
    by (simp_all add: replicate_append_same)
  show ?thesis
    unfolding shape using first up by simp
qed


text \<open>
  Claim C6. For a \<open>RECURSIVE_MUTEX\<close>: an acquire by the owner, whatever its arguments,
  adds one to the count and returns true, the world untouched; a release by the owner
  at a count above 1 takes one off the count, the world untouched; the release at
  count 1 goes to the post. So when an instance of count 0 is acquired \<open>N\<close> times by one
  thread (the first time through a \<open>sem_wait\<close> that succeeds) and then released \<open>N\<close>
  times (the post succeeding), all \<open>2N\<close> calls succeed, the count is 0 again, and the
  calls made are one \<open>sem_wait\<close> and exactly one \<open>sem_post\<close>. \<open>N\<close> is one more than the
  length of \<open>args\<close>, and below \<open>2^31\<close>.
\<close>

theorem recursive_mutex_round_trip:
  assumes "kind self = RECURSIVE_MUTEX"
  shows
  "(ISMINE self tid \<longrightarrow>
      Billiard_semlock_acquire H self tid blocking t w =
        Some (Inr True, self\<lparr>count := count self + 1\<rparr>, w)) \<and>
   (ISMINE self tid \<and> 1 <s count self \<longrightarrow>
      Billiard_semlock_release broken self tid w =
        Some (Inr (), self\<lparr>count := count self - 1\<rparr>, w)) \<and>
   (ISMINE self tid \<and> count self = 1 \<longrightarrow>
      Billiard_semlock_release broken self tid w = release_post self w) \<and>
   (count self = 0 \<and> answers w = r1 # r2 # rs \<and> ret r1 = 0 \<and> 0 \<le> ret r2 \<and>
    length args < 2147483647 \<longrightarrow>
      invoke_all H broken self w
        (Acquire tid True Py_None # map (\<lambda>(b, t). Acquire tid b t) args @
         replicate (Suc (length args)) (Release tid)) =
      Some (replicate (Suc (length args)) (Acquired (Inr True)) @
            replicate (Suc (length args)) (Released (Inr ())),
            self\<lparr>count := 0, last_tid := tid\<rparr>,
            w\<lparr>answers := rs,
              trace := trace w @ [SEM_WAIT (handle self), SEM_POST (handle self)]\<rparr>))"
  using assms acquire_owned [of self tid H blocking t w]
    release_owned_inner [of self tid broken w] release_owned_last [of self tid broken w]
    round_trip [of self w r1 r2 rs args H broken tid]
  by simp

theorem recursive_mutex_round_trip_witness:
  "kind fresh_mutex = RECURSIVE_MUTEX \<and> count fresh_mutex = 0 \<and>
   invoke_all mp_h False fresh_mutex (script [answer 0, answer 0])
     [Acquire 7 True Py_None, Acquire 7 False Py_None, Acquire 7 True (Py_Float 1.5),
      Release 7, Release 7, Release 7] =
   Some ([Acquired (Inr True), Acquired (Inr True), Acquired (Inr True),
          Released (Inr ()), Released (Inr ()), Released (Inr ())],
         fresh_mutex\<lparr>last_tid := 7\<rparr>,
         \<lparr>answers = [], trace = [SEM_WAIT 5, SEM_POST 5], errno = E_NONE\<rparr>)"
proof -
  have k: "kind fresh_mutex = RECURSIVE_MUTEX" and c: "count fresh_mutex = 0"
    by (simp_all add: fresh_mutex_def)
  have a: "answers (script [answer 0, answer 0]) = answer 0 # answer 0 # []"
    by (simp add: script_def)
  have r: "ret (answer 0) = 0" "0 \<le> ret (answer 0)" by (simp_all add: answer_def)
  have n: "length [(False, Py_None), (True, Py_Float 1.5)] < 2147483647" by simp
  from recursive_mutex_round_trip [OF k, of 7 mp_h True Py_None "script [answer 0, answer 0]"
      False "answer 0" "answer 0" "[]" "[(False, Py_None), (True, Py_Float 1.5)]"]
    c a r n
  have "invoke_all mp_h False fresh_mutex (script [answer 0, answer 0])
        (Acquire 7 True Py_None # map (\<lambda>(b, t). Acquire 7 b t)
            [(False, Py_None), (True, Py_Float 1.5)] @
         replicate (Suc (length [(False, Py_None), (True, Py_Float 1.5)])) (Release 7)) =
      Some (replicate (Suc (length [(False, Py_None), (True, Py_Float 1.5)]))
              (Acquired (Inr True)) @
            replicate (Suc (length [(False, Py_None), (True, Py_Float 1.5)]))
              (Released (Inr ())),
            fresh_mutex\<lparr>count := 0, last_tid := 7\<rparr>,
            (script [answer 0, answer 0])\<lparr>answers := [],
              trace := trace (script [answer 0, answer 0]) @
                [SEM_WAIT (handle fresh_mutex), SEM_POST (handle fresh_mutex)]\<rparr>)"
    by blast
  then show ?thesis
    using k c by (simp add: script_def fresh_mutex_def numeral_3_eq_3)
qed


section \<open>The timeout of a non-blocking acquire\<close>

lemma extcall_shorter:
  "extcall c w = Some (r, w') \<Longrightarrow> length (answers w') < length (answers w)"
  by (auto simp: extcall_def split: list.splits)

lemma syscall_shorter:
  "syscall c w = Some (r, w') \<Longrightarrow> length (answers w') < length (answers w)"
  by (auto simp: syscall_def extcall_def split: list.splits if_splits)

lemma acquire_wait_nonblocking_unfold:
  "acquire_wait H h False t d w =
     (case syscall (SEM_TRYWAIT h) w of
        None \<Rightarrow> None
      | Some (r, w1) \<Rightarrow>
          if ret r = MP_EXCEPTION_HAS_BEEN_SET H then Some (ret r, w1)
          else if ret r < 0 \<and> errno w1 = EINTR then
            (case extcall PYERR_CHECKSIGNALS w1 of
               None \<Rightarrow> None
             | Some (r', w2) \<Rightarrow>
                 if ret r' = 0 then acquire_wait H h False t d w2 else Some (ret r, w2))
          else Some (ret r, w1))"
  by (subst acquire_wait.simps) (simp split: option.splits)

lemma acquire_wait_nonblocking:
  "acquire_wait H h False t d w = acquire_wait H h False t' d' w"
proof (induction "length (answers w)" arbitrary: w rule: less_induct)
  case less
  show ?case
  proof (cases "syscall (SEM_TRYWAIT h) w")
    case None
    then show ?thesis
      by (simp add: acquire_wait_nonblocking_unfold [of H h t d w]
          acquire_wait_nonblocking_unfold [of H h t' d' w])
  next
    case (Some p)
    obtain r w1 where p: "p = (r, w1)" by (cases p)
    from Some p have l1: "length (answers w1) < length (answers w)"
      by (simp add: syscall_shorter)
    show ?thesis
    proof (cases "extcall PYERR_CHECKSIGNALS w1")
      case None
      with Some p show ?thesis
        by (simp add: acquire_wait_nonblocking_unfold [of H h t d w]
            acquire_wait_nonblocking_unfold [of H h t' d' w])
    next
      case (Some q)
      obtain r' w2 where q: "q = (r', w2)" by (cases q)
      from Some q have "length (answers w2) < length (answers w1)"
        by (simp add: extcall_shorter)
      with l1 have "length (answers w2) < length (answers w)" by simp
      from less [OF this]
      have "acquire_wait H h False t d w2 = acquire_wait H h False t' d' w2" .
      with Some q \<open>syscall (SEM_TRYWAIT h) w = Some p\<close> p show ?thesis
        by (simp add: acquire_wait_nonblocking_unfold [of H h t d w]
            acquire_wait_nonblocking_unfold [of H h t' d' w])
    qed
  qed
qed

lemma acquire_deadline_float:
  assumes "answers w = r # rs" and "0 \<le> ret r"
  shows "\<exists>d. acquire_deadline (Py_Float t) w =
           Some (Inr d, w\<lparr>answers := rs, trace := trace w @ [GETTIMEOFDAY]\<rparr>)"
  using assms(2) syscall_Cons [OF assms(1), of GETTIMEOFDAY]
  by (simp add: acquire_deadline_def Let_def)

lemma acquire_deadline_float_fail:
  assumes "answers w = r # rs" and "ret r < 0"
  shows "acquire_deadline (Py_Float t) w =
           Some (Inl (OSError (err r)),
                 w\<lparr>answers := rs, trace := trace w @ [GETTIMEOFDAY], errno := err r\<rparr>)"
  using assms(2) syscall_Cons [OF assms(1), of GETTIMEOFDAY]
  by (simp add: acquire_deadline_def Let_def)

lemma acquire_nonblocking_floats:
  "Billiard_semlock_acquire H self tid False (Py_Float t) w =
   Billiard_semlock_acquire H self tid False (Py_Float t') w"
proof (cases "answers w")
  case Nil
  then have "syscall GETTIMEOFDAY w = None" by (simp add: syscall_None)
  then show ?thesis by (simp add: Billiard_semlock_acquire_def acquire_deadline_def)
next
  case (Cons r rs)
  show ?thesis
  proof (cases "ret r < 0")
    case True
    from acquire_deadline_float_fail [OF Cons True] show ?thesis
      by (simp add: Billiard_semlock_acquire_def)
  next
    case False
    then have nn: "0 \<le> ret r" by simp
    from acquire_deadline_float [OF Cons nn, of t] acquire_deadline_float [OF Cons nn, of t']
    obtain d d' where
      "acquire_deadline (Py_Float t) w =
         Some (Inr d, w\<lparr>answers := rs, trace := trace w @ [GETTIMEOFDAY]\<rparr>)"
      "acquire_deadline (Py_Float t') w =
         Some (Inr d', w\<lparr>answers := rs, trace := trace w @ [GETTIMEOFDAY]\<rparr>)"
      by blast
    then show ?thesis
      using acquire_wait_nonblocking [of H "handle self" "Py_Float t" d _ "Py_Float t'" d']
      by (simp add: Billiard_semlock_acquire_def)
  qed
qed

lemma acquire_nonblocking_float_none:
  assumes "answers w = r # rs" and "0 \<le> ret r"
    and "\<not> (kind self = RECURSIVE_MUTEX \<and> ISMINE self tid)"
  shows "Billiard_semlock_acquire H self tid False (Py_Float t) w =
         Billiard_semlock_acquire H self tid False Py_None
           (w\<lparr>answers := rs, trace := trace w @ [GETTIMEOFDAY]\<rparr>)"
proof -
  from acquire_deadline_float [OF assms(1,2), of t] obtain d where
    "acquire_deadline (Py_Float t) w =
       Some (Inr d, w\<lparr>answers := rs, trace := trace w @ [GETTIMEOFDAY]\<rparr>)"
    by blast
  moreover have "acquire_deadline Py_None (w\<lparr>answers := rs, trace := trace w @ [GETTIMEOFDAY]\<rparr>) =
      Some (Inr \<lparr>ts_sec = 0, ts_nsec = 0\<rparr>, w\<lparr>answers := rs, trace := trace w @ [GETTIMEOFDAY]\<rparr>)"
    by (simp add: acquire_deadline_def)
  moreover note acquire_wait_nonblocking [of H "handle self" "Py_Float t" d _ Py_None
        "\<lparr>ts_sec = 0, ts_nsec = 0\<rparr>"]
  ultimately have "(if kind self = RECURSIVE_MUTEX \<and> ISMINE self tid then None
        else Billiard_semlock_acquire H self tid False (Py_Float t) w) =
      (if kind self = RECURSIVE_MUTEX \<and> ISMINE self tid then None
        else Billiard_semlock_acquire H self tid False Py_None
           (w\<lparr>answers := rs, trace := trace w @ [GETTIMEOFDAY]\<rparr>))"
    by (simp add: Billiard_semlock_acquire_def)
  with assms(3) show ?thesis by (simp split: if_splits)
qed

lemma acquire_win_nonblocking:
  "Billiard_semlock_acquire_win self tid False tobj w =
   Billiard_semlock_acquire_win self tid False tobj' w"
  by (simp add: Billiard_semlock_acquire_win_def win_full_msecs_def)

text \<open>
  Claim C10, as amended. In a non-blocking acquire the number the timeout converts to
  has no effect. On the POSIX path any two timeouts that convert give the same result,
  instance and world; and once the clock has been read with success, the call
  continues exactly as the call with timeout \<open>None\<close> does from there, unless the caller
  owns the recursive mutex, where any timeout object gives the fast path at once. On the
  Win32 path the timeout object is not looked at. What differs on the POSIX path: a
  timeout that does not convert raises before the try-acquire, and so does a clock
  that fails, with \<open>OSError\<close>.
\<close>

theorem nonblocking_acquire_timeout:
  "Billiard_semlock_acquire H self tid False (Py_Float t) w =
     Billiard_semlock_acquire H self tid False (Py_Float t') w \<and>
   (answers w = r # rs \<and> 0 \<le> ret r \<and> \<not> (kind self = RECURSIVE_MUTEX \<and> ISMINE self tid) \<longrightarrow>
      Billiard_semlock_acquire H self tid False (Py_Float t) w =
      Billiard_semlock_acquire H self tid False Py_None
        (w\<lparr>answers := rs, trace := trace w @ [GETTIMEOFDAY]\<rparr>)) \<and>
   (kind self = RECURSIVE_MUTEX \<and> ISMINE self tid \<longrightarrow>
      Billiard_semlock_acquire H self tid False tobj w =
        Some (Inr True, self\<lparr>count := count self + 1\<rparr>, w)) \<and>
   Billiard_semlock_acquire_win self tid False tobj w =
     Billiard_semlock_acquire_win self tid False tobj' w"
  using acquire_nonblocking_floats [of H self tid t w t']
    acquire_nonblocking_float_none [of w r rs self tid H t]
    acquire_owned [of self tid H False tobj w]
    acquire_win_nonblocking [of self tid tobj w tobj']
  by blast

theorem nonblocking_acquire_timeout_witness:
  "answers (script [clock 100 0, answer 0]) = clock 100 0 # [answer 0] \<and>
   0 \<le> ret (clock 100 0) \<and>
   \<not> (kind fresh_semaphore = RECURSIVE_MUTEX \<and> ISMINE fresh_semaphore 7) \<and>
   Billiard_semlock_acquire mp_h fresh_semaphore 7 False (Py_Float 2.5)
       (script [clock 100 0, answer 0]) =
     Some (Inr True, fresh_semaphore\<lparr>count := 1, last_tid := 7\<rparr>,
           \<lparr>answers = [], trace = [GETTIMEOFDAY, SEM_TRYWAIT 5], errno = E_NONE\<rparr>)"
proof -
  have a: "answers (script [clock 100 0, answer 0]) = clock 100 0 # [answer 0]"
    by (simp add: script_def)
  have r: "0 \<le> ret (clock 100 0)" by (simp add: clock_def)
  have k: "\<not> (kind fresh_semaphore = RECURSIVE_MUTEX \<and> ISMINE fresh_semaphore 7)"
    by (simp add: fresh_semaphore_def SEMAPHORE_def RECURSIVE_MUTEX_def)
  have n: "Billiard_semlock_acquire mp_h fresh_semaphore 7 False Py_None
      ((script [clock 100 0, answer 0])\<lparr>answers := [answer 0],
         trace := trace (script [clock 100 0, answer 0]) @ [GETTIMEOFDAY]\<rparr>) =
     Some (Inr True, fresh_semaphore\<lparr>count := 1, last_tid := 7\<rparr>,
           \<lparr>answers = [], trace = [GETTIMEOFDAY, SEM_TRYWAIT 5], errno = E_NONE\<rparr>)"
    by (simp add: Billiard_semlock_acquire_def acquire_deadline_def acquire_wait.simps
        ISMINE_def syscall_def extcall_def script_def answer_def fresh_semaphore_def mp_h_def
        SEMAPHORE_def RECURSIVE_MUTEX_def)
  from nonblocking_acquire_timeout [of mp_h fresh_semaphore 7 "2.5"
      "script [clock 100 0, answer 0]" "2.5" "clock 100 0" "[answer 0]" Py_None Py_None]
    a r k n
  show ?thesis by simp
qed

text \<open>
  Claim C10 as stated fails on the POSIX path: in one and the same state, where
  \<open>sem_trywait\<close> would succeed, the non-blocking acquire with timeout \<open>None\<close> takes the
  semaphore and returns true, and the one with a timeout object that
  \<open>PyFloat_AsDouble\<close> refuses returns \<open>NULL\<close> without a call to \<open>sem_trywait\<close>. So does the
  one with a timeout of one second when \<open>gettimeofday\<close> fails, a call that timeout
  \<open>None\<close> never makes.
\<close>

theorem nonblocking_acquire_bad_timeout:
  "Billiard_semlock_acquire mp_h fresh_semaphore 7 False Py_None (script [answer 0]) =
     Some (Inr True, fresh_semaphore\<lparr>count := 1, last_tid := 7\<rparr>,
           \<lparr>answers = [], trace = [SEM_TRYWAIT 5], errno = E_NONE\<rparr>) \<and>
   Billiard_semlock_acquire mp_h fresh_semaphore 7 False Py_Other (script [answer 0]) =
     Some (Inl ConversionError, fresh_semaphore, script [answer 0]) \<and>
   Billiard_semlock_acquire mp_h fresh_semaphore 7 False (Py_Float 1)
       (script [failure (E_OTHER 14), answer 0]) =
     Some (Inl (OSError (E_OTHER 14)), fresh_semaphore,
           \<lparr>answers = [answer 0], trace = [GETTIMEOFDAY], errno = E_OTHER 14\<rparr>)"
  by (simp add: Billiard_semlock_acquire_def acquire_deadline_def acquire_wait.simps
      ISMINE_def syscall_def extcall_def script_def answer_def failure_def fresh_semaphore_def
      mp_h_def SEMAPHORE_def RECURSIVE_MUTEX_def)

section \<open>Timeouts too large for the wait\<close>

text \<open>
  Claim C4, as amended. On the Win32 path, for a timeout that in milliseconds is at
  least \<open>0.5 * INFINITE\<close> (2147483647.5, some 25 days; every timeout that does not fit
  a \<open>DWORD\<close> of milliseconds is above it): a blocking acquire raises \<open>OverflowError\<close>
  before any wait, the instance and the world as before; a non-blocking acquire does
  what it does with timeout \<open>None\<close>.
\<close>

theorem win_timeout_overflow:
  assumes "0.5 * real (unat INFINITE) \<le> t * 1000"
  shows "(blocking \<longrightarrow>
            Billiard_semlock_acquire_win self tid blocking (Py_Float t) w =
              Some (Inl OverflowError, self, w)) \<and>
         (\<not> blocking \<longrightarrow>
            Billiard_semlock_acquire_win self tid blocking (Py_Float t) w =
            Billiard_semlock_acquire_win self tid blocking Py_None w)"
proof -
  from assms have "\<not> t * 1000 < 0" by (simp add: INFINITE_def)
  with assms show ?thesis
    by (simp add: Billiard_semlock_acquire_win_def win_full_msecs_def)
qed

theorem win_timeout_overflow_witness:
  "0.5 * real (unat INFINITE) \<le> 2147483.6475 * 1000 \<and>
   Billiard_semlock_acquire_win fresh_semaphore 7 True (Py_Float 2147483.6475)
       (script [answer 258]) =
     Some (Inl OverflowError, fresh_semaphore, script [answer 258])"
proof -
  have h: "0.5 * real (unat INFINITE) \<le> 2147483.6475 * 1000"
    by (simp add: INFINITE_def)
  from win_timeout_overflow [OF h, of True fresh_semaphore 7 "script [answer 258]"] h
  show ?thesis by simp
qed

text \<open>
  Claim C4 as stated fails. With a timeout of \<open>10^30\<close> seconds, far beyond a \<open>DWORD\<close>
  of milliseconds and beyond a \<open>long\<close> of seconds, and a semaphore that is free: on the
  Win32 path the non-blocking acquire, which never looks at the timeout, takes the
  semaphore and returns true; on the POSIX path, which has no check of the range, the
  blocking acquire does the same.
\<close>

theorem huge_timeout_no_overflow_error:
  "real (unat INFINITE) < 10 ^ 30 * 1000 \<and>
   Billiard_semlock_acquire_win fresh_semaphore 7 False (Py_Float (10 ^ 30))
       (script [answer 0]) =
     Some (Inr True, fresh_semaphore\<lparr>last_tid := 7, count := 1\<rparr>,
           \<lparr>answers = [], trace = [WAITFORSINGLEOBJECT 5 0], errno = E_NONE\<rparr>) \<and>
   Billiard_semlock_acquire mp_h fresh_semaphore 7 True (Py_Float (10 ^ 30))
       (script [clock 100 0, answer 0]) =
     Some (Inr True, fresh_semaphore\<lparr>count := 1, last_tid := 7\<rparr>,
           \<lparr>answers = [], trace = [GETTIMEOFDAY, SEM_TRYWAIT 5], errno = E_NONE\<rparr>)"
  by (simp add: Billiard_semlock_acquire_win_def win_full_msecs_def INFINITE_def
      WAIT_OBJECT_0_def Billiard_semlock_acquire_def acquire_deadline_def acquire_wait.simps
      Billiard_sem_timedwait_save_def poll_loop.simps ISMINE_def syscall_def extcall_def
      script_def clock_def answer_def fresh_semaphore_def mp_h_def SEMAPHORE_def
      RECURSIVE_MUTEX_def Let_def)

section \<open>The poll loop of a timed acquire\<close>

lemma split_usec: "(d :: c_ulong) div 1000000 * 1000000 + d mod 1000000 = d"
  by (rule div_mult_mod_eq)

lemma sleeps_append: "sleeps (xs @ ys) = sleeps xs @ sleeps ys"
  by (induction xs) simp_all

lemma poll_loop_unfold:
  "poll_loop H sem dl delay w =
     (case syscall (SEM_TRYWAIT sem) w of
        None \<Rightarrow> None
      | Some (r1, w1) \<Rightarrow>
          if ret r1 = 0 then Some (0, w1)
          else if errno w1 \<noteq> EAGAIN then Some (MP_STANDARD_ERROR H, w1)
          else
            (case syscall GETTIMEOFDAY w1 of
               None \<Rightarrow> None
             | Some (r2, w2) \<Rightarrow>
                 if ret r2 < 0 then Some (MP_STANDARD_ERROR H, w2)
                 else if deadline_passed dl (out_tv r2)
                 then Some (MP_STANDARD_ERROR H, w2\<lparr>errno := ETIMEDOUT\<rparr>)
                 else
                   (case syscall (SELECT \<lparr>tv_sec = round_sleep dl delay (out_tv r2) div 1000000,
                                          tv_usec = round_sleep dl delay (out_tv r2) mod 1000000\<rparr>)
                           w2 of
                      None \<Rightarrow> None
                    | Some (r3, w3) \<Rightarrow>
                        if ret r3 < 0 then Some (MP_STANDARD_ERROR H, w3)
                        else
                          (case extcall PYERR_CHECKSIGNALS w3 of
                             None \<Rightarrow> None
                           | Some (r4, w4) \<Rightarrow>
                               if ret r4 \<noteq> 0
                               then Some (MP_EXCEPTION_HAS_BEEN_SET H, w4\<lparr>errno := EINTR\<rparr>)
                               else poll_loop H sem dl
                                      (round_sleep dl delay (out_tv r2) + 1000) w4))))"
  unfolding deadline_passed_def remaining_def round_sleep_def
  by (subst poll_loop.simps) (simp only: Let_def)

lemma syscall_Cons_neg:
  "answers w = r # rs \<Longrightarrow> ret r < 0 \<Longrightarrow>
   syscall c w = Some (r, w\<lparr>answers := rs, trace := trace w @ [c], errno := err r\<rparr>)"
  by (simp add: syscall_def extcall_def)

lemma syscall_Cons_nonneg:
  "answers w = r # rs \<Longrightarrow> 0 \<le> ret r \<Longrightarrow>
   syscall c w = Some (r, w\<lparr>answers := rs, trace := trace w @ [c]\<rparr>)"
  by (simp add: syscall_def extcall_def)

lemma extcall_Cons:
  "answers w = r # rs \<Longrightarrow>
   extcall c w = Some (r, w\<lparr>answers := rs, trace := trace w @ [c]\<rparr>)"
  by (simp add: extcall_def)

lemma poll_loop_quiet_round:
  assumes a: "answers w = r1 # r2 # r3 # r4 # rest"
    and q: "quiet_round dl (r1, r2, r3, r4)"
  shows "poll_loop H sem dl delay w =
           poll_loop H sem dl (round_sleep dl delay (out_tv r2) + 1000)
             (w\<lparr>answers := rest,
                trace := trace w @
                  [SEM_TRYWAIT sem, GETTIMEOFDAY,
                   SELECT \<lparr>tv_sec = round_sleep dl delay (out_tv r2) div 1000000,
                           tv_usec = round_sleep dl delay (out_tv r2) mod 1000000\<rparr>,
                   PYERR_CHECKSIGNALS],
                errno := EAGAIN\<rparr>)"
proof -
  from q have q1: "ret r1 < 0" "err r1 = EAGAIN" and q2: "0 \<le> ret r2"
    "\<not> deadline_passed dl (out_tv r2)" and q3: "0 \<le> ret r3" and q4: "ret r4 = 0"
    by (simp_all add: quiet_round_def)
  let ?w1 = "w\<lparr>answers := r2 # r3 # r4 # rest, trace := trace w @ [SEM_TRYWAIT sem],
      errno := EAGAIN\<rparr>"
  let ?w2 = "?w1\<lparr>answers := r3 # r4 # rest, trace := trace ?w1 @ [GETTIMEOFDAY]\<rparr>"
  let ?sel = "SELECT \<lparr>tv_sec = round_sleep dl delay (out_tv r2) div 1000000,
                      tv_usec = round_sleep dl delay (out_tv r2) mod 1000000\<rparr>"
  let ?w3 = "?w2\<lparr>answers := r4 # rest, trace := trace ?w2 @ [?sel]\<rparr>"
  let ?w4 = "?w3\<lparr>answers := rest, trace := trace ?w3 @ [PYERR_CHECKSIGNALS]\<rparr>"
  have s1: "syscall (SEM_TRYWAIT sem) w = Some (r1, ?w1)"
    using syscall_Cons_neg [OF a q1(1)] q1(2) by simp
  have s2: "syscall GETTIMEOFDAY ?w1 = Some (r2, ?w2)"
    using q2(1) by (intro syscall_Cons_nonneg) simp_all
  have s3: "syscall ?sel ?w2 = Some (r3, ?w3)"
    using q3 by (intro syscall_Cons_nonneg) simp_all
  have s4: "extcall PYERR_CHECKSIGNALS ?w3 = Some (r4, ?w4)"
    by (intro extcall_Cons) simp
  have w4: "?w4 = w\<lparr>answers := rest,
                trace := trace w @ [SEM_TRYWAIT sem, GETTIMEOFDAY, ?sel, PYERR_CHECKSIGNALS],
                errno := EAGAIN\<rparr>"
    by simp
  have "poll_loop H sem dl delay w =
      poll_loop H sem dl (round_sleep dl delay (out_tv r2) + 1000) ?w4"
    apply (subst poll_loop_unfold)
    apply (simp only: s1 option.case prod.case)
    apply (simp only: s2 option.case prod.case)
    apply (simp only: s3 option.case prod.case)
    apply (simp only: s4 option.case prod.case)
    using q1 q2 q3 q4 apply simp
    done
  then show ?thesis by (simp only: w4)
qed


lemma poll_loop_quiet_rounds:
  assumes "list_all (quiet_round dl) qs" and "answers w = round_answers qs @ rest"
  shows "\<exists>w'. poll_loop H sem dl delay w = poll_loop H sem dl (delay_after dl delay qs) w' \<and>
           answers w' = rest \<and>
           sleeps (trace w') = sleeps (trace w) @ round_sleeps dl delay qs"
  using assms
proof (induction qs arbitrary: delay w)
  case Nil
  then show ?case by (auto simp: round_answers_def)
next
  case (Cons q qs)
  obtain r1 r2 r3 r4 where q: "q = (r1, r2, r3, r4)" by (cases q) auto
  let ?d = "round_sleep dl delay (out_tv r2)"
  let ?w1 = "w\<lparr>answers := round_answers qs @ rest,
                trace := trace w @
                  [SEM_TRYWAIT sem, GETTIMEOFDAY,
                   SELECT \<lparr>tv_sec = ?d div 1000000, tv_usec = ?d mod 1000000\<rparr>,
                   PYERR_CHECKSIGNALS],
                errno := EAGAIN\<rparr>"
  from Cons.prems q have a: "answers w = r1 # r2 # r3 # r4 # (round_answers qs @ rest)"
    and qr: "quiet_round dl (r1, r2, r3, r4)" and qrs: "list_all (quiet_round dl) qs"
    by (simp_all add: round_answers_def)
  have step: "poll_loop H sem dl delay w = poll_loop H sem dl (?d + 1000) ?w1"
    by (rule poll_loop_quiet_round [OF a qr])
  have "answers ?w1 = round_answers qs @ rest" by simp
  from Cons.IH [OF qrs this, of "?d + 1000"] obtain w' where
    ih: "poll_loop H sem dl (?d + 1000) ?w1 =
         poll_loop H sem dl (delay_after dl (?d + 1000) qs) w'"
    "answers w' = rest"
    "sleeps (trace w') = sleeps (trace ?w1) @ round_sleeps dl (?d + 1000) qs"
    by blast
  have "sleeps (trace ?w1) = sleeps (trace w) @ [?d]"
    by (simp add: sleeps_append split_usec)
  with step ih q show ?case by auto
qed

lemma poll_loop_acquired:
  assumes "answers w = r1 # rest" and "ret r1 = 0"
  shows "poll_loop H sem dl delay w =
           Some (0, w\<lparr>answers := rest, trace := trace w @ [SEM_TRYWAIT sem]\<rparr>)"
proof -
  from assms have s1: "syscall (SEM_TRYWAIT sem) w =
      Some (r1, w\<lparr>answers := rest, trace := trace w @ [SEM_TRYWAIT sem]\<rparr>)"
    by (intro syscall_Cons_nonneg) simp_all
  show ?thesis
    apply (subst poll_loop_unfold)
    apply (simp only: s1 option.case prod.case)
    using assms(2) apply simp
    done
qed

lemma poll_loop_timeout:
  assumes a: "answers w = r1 # r2 # rest" and r1: "ret r1 < 0" "err r1 = EAGAIN"
    and r2: "0 \<le> ret r2" "deadline_passed dl (out_tv r2)"
  shows "poll_loop H sem dl delay w =
           Some (MP_STANDARD_ERROR H,
                 w\<lparr>answers := rest, trace := trace w @ [SEM_TRYWAIT sem, GETTIMEOFDAY],
                   errno := ETIMEDOUT\<rparr>)"
proof -
  let ?w1 = "w\<lparr>answers := r2 # rest, trace := trace w @ [SEM_TRYWAIT sem],
      errno := EAGAIN\<rparr>"
  let ?w2 = "?w1\<lparr>answers := rest, trace := trace ?w1 @ [GETTIMEOFDAY]\<rparr>"
  have s1: "syscall (SEM_TRYWAIT sem) w = Some (r1, ?w1)"
    using syscall_Cons_neg [OF a r1(1)] r1(2) by simp
  have s2: "syscall GETTIMEOFDAY ?w1 = Some (r2, ?w2)"
    using r2(1) by (intro syscall_Cons_nonneg) simp_all
  show ?thesis
    apply (subst poll_loop_unfold)
    apply (simp only: s1 option.case prod.case)
    apply (simp only: s2 option.case prod.case)
    using r1 r2 apply simp
    done
qed

lemma poll_loop_signal:
  assumes a: "answers w = r1 # r2 # r3 # r4 # rest" and r1: "ret r1 < 0" "err r1 = EAGAIN"
    and r2: "0 \<le> ret r2" "\<not> deadline_passed dl (out_tv r2)"
    and r3: "0 \<le> ret r3" and r4: "ret r4 \<noteq> 0"
  shows "poll_loop H sem dl delay w =
           Some (MP_EXCEPTION_HAS_BEEN_SET H,
                 w\<lparr>answers := rest,
                   trace := trace w @
                     [SEM_TRYWAIT sem, GETTIMEOFDAY,
                      SELECT \<lparr>tv_sec = round_sleep dl delay (out_tv r2) div 1000000,
                              tv_usec = round_sleep dl delay (out_tv r2) mod 1000000\<rparr>,
                      PYERR_CHECKSIGNALS],
                   errno := EINTR\<rparr>)"
proof -
  let ?w1 = "w\<lparr>answers := r2 # r3 # r4 # rest, trace := trace w @ [SEM_TRYWAIT sem],
      errno := EAGAIN\<rparr>"
  let ?w2 = "?w1\<lparr>answers := r3 # r4 # rest, trace := trace ?w1 @ [GETTIMEOFDAY]\<rparr>"
  let ?sel = "SELECT \<lparr>tv_sec = round_sleep dl delay (out_tv r2) div 1000000,
                      tv_usec = round_sleep dl delay (out_tv r2) mod 1000000\<rparr>"
  let ?w3 = "?w2\<lparr>answers := r4 # rest, trace := trace ?w2 @ [?sel]\<rparr>"
  let ?w4 = "?w3\<lparr>answers := rest, trace := trace ?w3 @ [PYERR_CHECKSIGNALS]\<rparr>"
  have s1: "syscall (SEM_TRYWAIT sem) w = Some (r1, ?w1)"
    using syscall_Cons_neg [OF a r1(1)] r1(2) by simp
  have s2: "syscall GETTIMEOFDAY ?w1 = Some (r2, ?w2)"
    using r2(1) by (intro syscall_Cons_nonneg) simp_all
  have s3: "syscall ?sel ?w2 = Some (r3, ?w3)"
    using r3 by (intro syscall_Cons_nonneg) simp_all
  have s4: "extcall PYERR_CHECKSIGNALS ?w3 = Some (r4, ?w4)"
    by (intro extcall_Cons) simp
  show ?thesis
    apply (subst poll_loop_unfold)
    apply (simp only: s1 option.case prod.case)
    apply (simp only: s2 option.case prod.case)
    apply (simp only: s3 option.case prod.case)
    apply (simp only: s4 option.case prod.case)
    using r1 r2 r3 r4 apply simp
    done
qed

lemma acquire_wait_timed:
  "acquire_wait H h True (Py_Float t) deadline w =
     (case poll_loop H h \<lparr>tv_sec = ts_sec deadline, tv_usec = c_div (ts_nsec deadline) 1000\<rparr> 0
             (w\<lparr>errno := E_NONE\<rparr>) of
        None \<Rightarrow> None
      | Some (res, w1) \<Rightarrow>
          if res = MP_EXCEPTION_HAS_BEEN_SET H then Some (res, w1)
          else if res < 0 \<and> errno w1 = EINTR then
            (case extcall PYERR_CHECKSIGNALS w1 of
               None \<Rightarrow> None
             | Some (r, w2) \<Rightarrow>
                 if ret r = 0 then acquire_wait H h True (Py_Float t) deadline w2
                 else Some (res, w2))
          else Some (res, w1))"
  by (subst acquire_wait.simps) (simp add: Billiard_sem_timedwait_save_def)

lemma acquire_timed_result:
  assumes "\<not> (kind self = RECURSIVE_MUTEX \<and> ISMINE self tid)"
    and "acquire_deadline (Py_Float t) w = Some (Inr deadline, w0)"
    and "poll_loop H (handle self)
           \<lparr>tv_sec = ts_sec deadline, tv_usec = c_div (ts_nsec deadline) 1000\<rparr> 0
           (w0\<lparr>errno := E_NONE\<rparr>) = Some (res, w1)"
    and "res = MP_EXCEPTION_HAS_BEEN_SET H \<or> \<not> (res < 0 \<and> errno w1 = EINTR)"
  shows "Billiard_semlock_acquire H self tid True (Py_Float t) w =
           (if res < 0 then
              (if errno w1 = EAGAIN \<or> errno w1 = ETIMEDOUT then Some (Inr False, self, w1)
               else if errno w1 = EINTR then Some (Inl Interrupted, self, w1)
               else Some (Inl (OSError (errno w1)), self, w1))
            else Some (Inr True, self\<lparr>count := count self + 1, last_tid := tid\<rparr>, w1))"
proof -
  from assms(3,4) have "acquire_wait H (handle self) True (Py_Float t) deadline w0 = Some (res, w1)"
    by (auto simp: acquire_wait_timed)
  with assms(1,2) show ?thesis
    by (auto simp: Billiard_semlock_acquire_def)
qed


lemma round_sleep_le_cap: "round_sleep dl delay now \<le> 20000"
  by (auto simp: round_sleep_def)

lemma round_sleep_le_remaining: "round_sleep dl delay now \<le> remaining dl now"
  by (auto simp: round_sleep_def)

lemma round_sleep_le_delay: "round_sleep dl delay now \<le> delay"
  by (auto simp: round_sleep_def)

lemma round_sleeps_cap: "list_all (\<lambda>s. s \<le> 20000) (round_sleeps dl delay qs)"
  by (induction dl delay qs rule: round_sleeps.induct) (simp_all add: round_sleep_le_cap)

lemma round_sleeps_remaining:
  "list_all2 (\<lambda>s q. s \<le> remaining dl (out_tv (fst (snd q)))) (round_sleeps dl delay qs) qs"
  by (induction dl delay qs rule: round_sleeps.induct) (simp_all add: round_sleep_le_remaining)

lemma length_round_sleeps: "length (round_sleeps dl delay qs) = length qs"
  by (induction dl delay qs rule: round_sleeps.induct) simp_all

lemma round_sleeps_linear:
  "k < length qs \<Longrightarrow> unat (round_sleeps dl delay qs ! k) \<le> unat delay + 1000 * k"
proof (induction dl delay qs arbitrary: k rule: round_sleeps.induct)
  case (1 dl delay)
  then show ?case by simp
next
  case (2 dl delay r1 r2 r3 r4 qs)
  let ?s = "round_sleep dl delay (out_tv r2)"
  have s: "unat ?s \<le> unat delay"
    using round_sleep_le_delay [of dl delay "out_tv r2"] by (simp add: word_le_nat_alt)
  show ?case
  proof (cases k)
    case 0
    with s show ?thesis by simp
  next
    case (Suc j)
    with "2.prems" have "j < length qs" by simp
    from "2.IH" [OF this] have "unat (round_sleeps dl (?s + 1000) qs ! j) \<le> unat (?s + 1000) + 1000 * j" .
    moreover have "unat (?s + 1000) \<le> unat ?s + 1000"
    proof -
      have "unat (?s + 1000) = (unat ?s + unat (1000 :: c_ulong)) mod 2 ^ 64"
        by (simp add: unat_word_ariths)
      also have "\<dots> \<le> unat ?s + unat (1000 :: c_ulong)" by (rule mod_less_eq_dividend)
      finally show ?thesis by simp
    qed
    ultimately show ?thesis using s Suc by simp
  qed
qed


lemma round_sleep_far:
  assumes "d \<le> 21000" and "20000 \<le> remaining dl now"
  shows "round_sleep dl (of_nat d) now = of_nat (min d 20000)"
proof -
  have u: "unat (of_nat d :: c_ulong) = d"
    using assms(1) by (simp add: unat_of_nat)
  have r: "20000 \<le> unat (remaining dl now)"
    using assms(2) by (simp add: word_le_nat_alt)
  show ?thesis
  proof (cases "20000 < d")
    case True
    then have "(20000 :: c_ulong) < of_nat d" by (simp add: word_less_nat_alt u)
    moreover have "\<not> remaining dl now < 20000" using r by (simp add: word_less_nat_alt)
    ultimately show ?thesis using True by (simp add: round_sleep_def)
  next
    case False
    then have "\<not> (20000 :: c_ulong) < of_nat d" by (simp add: word_less_nat_alt u)
    moreover have "\<not> remaining dl now < of_nat d"
      using r False by (simp add: word_less_nat_alt u)
    ultimately show ?thesis using False by (simp add: round_sleep_def min_def)
  qed
qed

lemma round_sleeps_far:
  assumes "list_all (\<lambda>q. 20000 \<le> remaining dl (out_tv (fst (snd q)))) qs" and "d \<le> 21000"
  shows "round_sleeps dl (of_nat d) qs =
           map (\<lambda>k. of_nat (min (d + 1000 * k) 20000)) [0..<length qs]"
  using assms
proof (induction qs arbitrary: d)
  case Nil
  then show ?case by simp
next
  case (Cons q qs)
  obtain r1 r2 r3 r4 where q: "q = (r1, r2, r3, r4)" by (cases q) auto
  from Cons.prems q have far: "20000 \<le> remaining dl (out_tv r2)"
    and rest: "list_all (\<lambda>q. 20000 \<le> remaining dl (out_tv (fst (snd q)))) qs"
    by simp_all
  have s: "round_sleep dl (of_nat d) (out_tv r2) = of_nat (min d 20000)"
    by (rule round_sleep_far [OF Cons.prems(2) far])
  have n: "(of_nat (min d 20000) :: c_ulong) + 1000 = of_nat (min d 20000 + 1000)" by simp
  have "min d 20000 + 1000 \<le> 21000" by simp
  from Cons.IH [OF rest this]
  have ih: "round_sleeps dl (of_nat (min d 20000 + 1000)) qs =
      map (\<lambda>k. of_nat (min (min d 20000 + 1000 + 1000 * k) 20000)) [0..<length qs]" .
  have m: "\<And>k. min (min d 20000 + 1000 + 1000 * k) 20000 = min (d + 1000 * Suc k) 20000"
    by (simp add: min_def)
  show ?case
    unfolding q round_sleeps.simps s n ih m
    by (simp add: map_upt_Suc del: upt_Suc)
qed

lemma delay_after_snoc:
  "delay_after dl delay (qs @ [q]) =
     round_sleep dl (delay_after dl delay qs) (out_tv (fst (snd q))) + 1000"
  by (induction dl delay qs rule: delay_after.induct) (cases q; simp)+

lemma round_sleeps_snoc:
  "round_sleeps dl delay (qs @ [q]) =
     round_sleeps dl delay qs @ [round_sleep dl (delay_after dl delay qs) (out_tv (fst (snd q)))]"
  by (induction dl delay qs rule: round_sleeps.induct) (cases q; simp)+


lemma unat_round_sleep:
  "unat (round_sleep dl delay now) = min (min (unat delay) 20000) (unat (remaining dl now))"
  by (auto simp: round_sleep_def word_less_nat_alt min_def)

lemma unat_next_delay:
  "unat (round_sleep dl delay now + 1000) = unat (round_sleep dl delay now) + 1000"
proof -
  have "unat (round_sleep dl delay now) \<le> 20000"
    using round_sleep_le_cap [of dl delay now] by (simp add: word_le_nat_alt)
  then show ?thesis by (simp add: unat_word_ariths)
qed

lemma polls_bounded_from:
  assumes "time_moves_on dl delay (q # qs)" and "1000 \<le> unat delay"
  shows "1000 * length qs < unat (remaining dl (out_tv (fst (snd q))))"
  using assms
proof (induction qs arbitrary: delay q)
  case Nil
  obtain r1 r2 r3 r4 where "q = (r1, r2, r3, r4)" by (cases q) auto
  with Nil show ?case by (simp add: word_less_nat_alt)
next
  case (Cons q' qs)
  obtain r1 r2 r3 r4 where q: "q = (r1, r2, r3, r4)" by (cases q) auto
  obtain r1' r2' r3' r4' where q': "q' = (r1', r2', r3', r4')" by (cases q') auto
  let ?R = "unat (remaining dl (out_tv r2))"
  let ?R' = "unat (remaining dl (out_tv r2'))"
  let ?s = "round_sleep dl delay (out_tv r2)"
  from Cons.prems(1) q q' have adv: "?R' + unat ?s \<le> ?R"
    and nxt: "time_moves_on dl (?s + 1000) (q' # qs)"
    by simp_all
  have "1000 \<le> unat (?s + 1000)" by (simp add: unat_next_delay)
  from Cons.IH [OF nxt this] q' have ih: "1000 * length qs < ?R'" by simp
  then have "0 < ?R'" by simp
  with adv have "unat ?s < ?R" by simp
  then have "unat ?s = min (unat delay) 20000" unfolding unat_round_sleep by linarith
  with Cons.prems(2) have "1000 \<le> unat ?s" by simp
  with adv ih q show ?case by simp
qed

lemma polls_bounded:
  assumes "time_moves_on dl 0 (q # qs)"
  shows "length (q # qs) \<le> unat (remaining dl (out_tv (fst (snd q)))) div 1000 + 2"
proof (cases qs)
  case Nil
  then show ?thesis by simp
next
  case (Cons q' qs')
  obtain r1 r2 r3 r4 where q: "q = (r1, r2, r3, r4)" by (cases q) auto
  obtain r1' r2' r3' r4' where q': "q' = (r1', r2', r3', r4')" by (cases q') auto
  let ?R = "unat (remaining dl (out_tv r2))"
  let ?R' = "unat (remaining dl (out_tv r2'))"
  let ?s = "round_sleep dl 0 (out_tv r2)"
  from assms Cons q q' have adv: "?R' + unat ?s \<le> ?R"
    and nxt: "time_moves_on dl (?s + 1000) (q' # qs')"
    by simp_all
  have "1000 \<le> unat (?s + 1000)" by (simp add: unat_next_delay)
  from polls_bounded_from [OF nxt this] q' have "1000 * length qs' < ?R'" by simp
  with adv have "1000 * length qs' < ?R" by simp
  then have "length qs' \<le> ?R div 1000"
    by (simp add: less_eq_div_iff_mult_less_eq) 
  with Cons q show ?thesis by simp
qed

lemma timed_acquire_outcomes:
  assumes hdr: "MP_STANDARD_ERROR H < 0" "MP_EXCEPTION_HAS_BEEN_SET H < 0"
    and free: "\<not> (kind self = RECURSIVE_MUTEX \<and> ISMINE self tid)"
    and dl: "acquire_deadline (Py_Float t) w = Some (Inr deadline, w0)"
    and tvd: "tvd = \<lparr>tv_sec = ts_sec deadline, tv_usec = c_div (ts_nsec deadline) 1000\<rparr>"
    and quiet: "list_all (quiet_round tvd) qs"
    and ans: "answers w0 = round_answers qs @ r1 # r2 # r3 # r4 # rest"
  shows "ret r1 = 0 \<longrightarrow>
           (\<exists>w'. Billiard_semlock_acquire H self tid True (Py_Float t) w =
                   Some (Inr True, self\<lparr>count := count self + 1, last_tid := tid\<rparr>, w') \<and>
                 answers w' = r2 # r3 # r4 # rest \<and>
                 sleeps (trace w') = sleeps (trace w0) @ round_sleeps tvd 0 qs)"
    and "ret r1 < 0 \<and> err r1 = EAGAIN \<and> 0 \<le> ret r2 \<and> deadline_passed tvd (out_tv r2) \<longrightarrow>
           (\<exists>w'. Billiard_semlock_acquire H self tid True (Py_Float t) w =
                   Some (Inr False, self, w') \<and>
                 answers w' = r3 # r4 # rest \<and>
                 sleeps (trace w') = sleeps (trace w0) @ round_sleeps tvd 0 qs)"
    and "ret r1 < 0 \<and> err r1 = EAGAIN \<and> 0 \<le> ret r2 \<and> \<not> deadline_passed tvd (out_tv r2) \<and>
         0 \<le> ret r3 \<and> ret r4 \<noteq> 0 \<longrightarrow>
           (\<exists>w'. Billiard_semlock_acquire H self tid True (Py_Float t) w =
                   Some (Inl Interrupted, self, w') \<and>
                 answers w' = rest \<and>
                 sleeps (trace w') =
                   sleeps (trace w0) @ round_sleeps tvd 0 (qs @ [(r1, r2, r3, r4)]))"
proof -
  let ?h = "handle self"
  have "answers (w0\<lparr>errno := E_NONE\<rparr>) = round_answers qs @ r1 # r2 # r3 # r4 # rest"
    using ans by simp
  from poll_loop_quiet_rounds [OF quiet this, of H ?h 0] obtain w1 where
    run: "poll_loop H ?h tvd 0 (w0\<lparr>errno := E_NONE\<rparr>) =
          poll_loop H ?h tvd (delay_after tvd 0 qs) w1"
    and a1: "answers w1 = r1 # r2 # r3 # r4 # rest"
    and s1: "sleeps (trace w1) = sleeps (trace w0) @ round_sleeps tvd 0 qs"
    by auto
  note res = acquire_timed_result [OF free dl, of H, folded tvd]
  show "ret r1 = 0 \<longrightarrow>
           (\<exists>w'. Billiard_semlock_acquire H self tid True (Py_Float t) w =
                   Some (Inr True, self\<lparr>count := count self + 1, last_tid := tid\<rparr>, w') \<and>
                 answers w' = r2 # r3 # r4 # rest \<and>
                 sleeps (trace w') = sleeps (trace w0) @ round_sleeps tvd 0 qs)"
  proof
    assume r: "ret r1 = 0"
    let ?w' = "w1\<lparr>answers := r2 # r3 # r4 # rest, trace := trace w1 @ [SEM_TRYWAIT ?h]\<rparr>"
    from poll_loop_acquired [OF a1 r, of H ?h tvd "delay_after tvd 0 qs"] run
    have "poll_loop H ?h tvd 0 (w0\<lparr>errno := E_NONE\<rparr>) = Some (0, ?w')" by simp
    from res [OF this] hdr(2)
    have "Billiard_semlock_acquire H self tid True (Py_Float t) w =
        Some (Inr True, self\<lparr>count := count self + 1, last_tid := tid\<rparr>, ?w')"
      by simp
    moreover have "sleeps (trace ?w') = sleeps (trace w0) @ round_sleeps tvd 0 qs"
      using s1 by (simp add: sleeps_append)
    ultimately show "\<exists>w'. Billiard_semlock_acquire H self tid True (Py_Float t) w =
                   Some (Inr True, self\<lparr>count := count self + 1, last_tid := tid\<rparr>, w') \<and>
                 answers w' = r2 # r3 # r4 # rest \<and>
                 sleeps (trace w') = sleeps (trace w0) @ round_sleeps tvd 0 qs"
      by (intro exI [of _ ?w']) simp
  qed
  show "ret r1 < 0 \<and> err r1 = EAGAIN \<and> 0 \<le> ret r2 \<and> deadline_passed tvd (out_tv r2) \<longrightarrow>
           (\<exists>w'. Billiard_semlock_acquire H self tid True (Py_Float t) w =
                   Some (Inr False, self, w') \<and>
                 answers w' = r3 # r4 # rest \<and>
                 sleeps (trace w') = sleeps (trace w0) @ round_sleeps tvd 0 qs)"
  proof
    assume r: "ret r1 < 0 \<and> err r1 = EAGAIN \<and> 0 \<le> ret r2 \<and> deadline_passed tvd (out_tv r2)"
    let ?w' = "w1\<lparr>answers := r3 # r4 # rest,
        trace := trace w1 @ [SEM_TRYWAIT ?h, GETTIMEOFDAY], errno := ETIMEDOUT\<rparr>"
    from r have "ret r1 < 0" "err r1 = EAGAIN" "0 \<le> ret r2" "deadline_passed tvd (out_tv r2)"
      by simp_all
    from poll_loop_timeout [OF a1 this, of H ?h "delay_after tvd 0 qs"] run
    have "poll_loop H ?h tvd 0 (w0\<lparr>errno := E_NONE\<rparr>) = Some (MP_STANDARD_ERROR H, ?w')"
      by simp
    from res [OF this] hdr(1)
    have "Billiard_semlock_acquire H self tid True (Py_Float t) w = Some (Inr False, self, ?w')"
      by simp
    moreover have "sleeps (trace ?w') = sleeps (trace w0) @ round_sleeps tvd 0 qs"
      using s1 by (simp add: sleeps_append)
    ultimately show "\<exists>w'. Billiard_semlock_acquire H self tid True (Py_Float t) w =
                   Some (Inr False, self, w') \<and>
                 answers w' = r3 # r4 # rest \<and>
                 sleeps (trace w') = sleeps (trace w0) @ round_sleeps tvd 0 qs"
      by (intro exI [of _ ?w']) simp
  qed
  show "ret r1 < 0 \<and> err r1 = EAGAIN \<and> 0 \<le> ret r2 \<and> \<not> deadline_passed tvd (out_tv r2) \<and>
         0 \<le> ret r3 \<and> ret r4 \<noteq> 0 \<longrightarrow>
           (\<exists>w'. Billiard_semlock_acquire H self tid True (Py_Float t) w =
                   Some (Inl Interrupted, self, w') \<and>
                 answers w' = rest \<and>
                 sleeps (trace w') =
                   sleeps (trace w0) @ round_sleeps tvd 0 (qs @ [(r1, r2, r3, r4)]))"
  proof
    assume r: "ret r1 < 0 \<and> err r1 = EAGAIN \<and> 0 \<le> ret r2 \<and>
      \<not> deadline_passed tvd (out_tv r2) \<and> 0 \<le> ret r3 \<and> ret r4 \<noteq> 0"
    let ?d = "round_sleep tvd (delay_after tvd 0 qs) (out_tv r2)"
    let ?w' = "w1\<lparr>answers := rest,
        trace := trace w1 @
          [SEM_TRYWAIT ?h, GETTIMEOFDAY,
           SELECT \<lparr>tv_sec = ?d div 1000000, tv_usec = ?d mod 1000000\<rparr>, PYERR_CHECKSIGNALS],
        errno := EINTR\<rparr>"
    from r have "ret r1 < 0" "err r1 = EAGAIN" "0 \<le> ret r2"
      "\<not> deadline_passed tvd (out_tv r2)" "0 \<le> ret r3" "ret r4 \<noteq> 0"
      by simp_all
    from poll_loop_signal [OF a1 this, of H ?h "delay_after tvd 0 qs"] run
    have "poll_loop H ?h tvd 0 (w0\<lparr>errno := E_NONE\<rparr>) =
        Some (MP_EXCEPTION_HAS_BEEN_SET H, ?w')"
      by simp
    from res [OF this] hdr(2)
    have "Billiard_semlock_acquire H self tid True (Py_Float t) w =
        Some (Inl Interrupted, self, ?w')"
      by simp
    moreover have "sleeps (trace ?w') =
        sleeps (trace w0) @ round_sleeps tvd 0 (qs @ [(r1, r2, r3, r4)])"
      using s1 by (simp add: sleeps_append split_usec round_sleeps_snoc)
    ultimately show "\<exists>w'. Billiard_semlock_acquire H self tid True (Py_Float t) w =
                   Some (Inl Interrupted, self, w') \<and>
                 answers w' = rest \<and>
                 sleeps (trace w') =
                   sleeps (trace w0) @ round_sleeps tvd 0 (qs @ [(r1, r2, r3, r4)])"
      by (intro exI [of _ ?w']) simp
  qed
qed


text \<open>
  Claim C3, as amended. A timed acquire (blocking, with a timeout that converts, by a
  thread that does not own the recursive mutex) computes the deadline and polls. A
  round in which \<open>sem_trywait\<close> fails with \<open>EAGAIN\<close>, the clock is read before the
  deadline, \<open>select\<close> returns and \<open>PyErr_CheckSignals\<close> reports nothing is followed by
  another round. After any number of such rounds \<open>qs\<close>: a \<open>sem_trywait\<close> that succeeds
  makes the acquire return true, with the count raised and the owner set; a clock at or
  past the deadline makes it return false, the instance unchanged; a signal found
  after the sleep makes it return \<open>NULL\<close> with the exception of the signal handler, the
  instance unchanged. The delays slept are those of \<open>round_sleeps\<close> from a delay of 0:
  each is at most 20000 microseconds and at most the time that was left when the clock
  was read; the \<open>k\<close>-th is at most \<open>1000 * k\<close>, and as long as at least 20 ms are left it
  is exactly \<open>min (1000 * k) 20000\<close>: it grows by 1 ms a round, linearly, up to the
  ceiling. The loop is bounded by the deadline: when time moves on at least as fast
  as the loop sleeps, there are no more rounds than the milliseconds left at the first
  poll, and two. The two constants of \<open>multiprocessing.h\<close> are taken to be negative.
\<close>

theorem timed_acquire_polls:
  assumes "MP_STANDARD_ERROR H < 0" and "MP_EXCEPTION_HAS_BEEN_SET H < 0"
    and "\<not> (kind self = RECURSIVE_MUTEX \<and> ISMINE self tid)"
    and "acquire_deadline (Py_Float t) w = Some (Inr deadline, w0)"
    and "tvd = \<lparr>tv_sec = ts_sec deadline, tv_usec = c_div (ts_nsec deadline) 1000\<rparr>"
    and "list_all (quiet_round tvd) qs"
    and "answers w0 = round_answers qs @ r1 # r2 # r3 # r4 # rest"
  shows
  "(ret r1 = 0 \<longrightarrow>
      (\<exists>w'. Billiard_semlock_acquire H self tid True (Py_Float t) w =
              Some (Inr True, self\<lparr>count := count self + 1, last_tid := tid\<rparr>, w') \<and>
            answers w' = r2 # r3 # r4 # rest \<and>
            sleeps (trace w') = sleeps (trace w0) @ round_sleeps tvd 0 qs)) \<and>
   (ret r1 < 0 \<and> err r1 = EAGAIN \<and> 0 \<le> ret r2 \<and> deadline_passed tvd (out_tv r2) \<longrightarrow>
      (\<exists>w'. Billiard_semlock_acquire H self tid True (Py_Float t) w =
              Some (Inr False, self, w') \<and>
            answers w' = r3 # r4 # rest \<and>
            sleeps (trace w') = sleeps (trace w0) @ round_sleeps tvd 0 qs)) \<and>
   (ret r1 < 0 \<and> err r1 = EAGAIN \<and> 0 \<le> ret r2 \<and> \<not> deadline_passed tvd (out_tv r2) \<and>
    0 \<le> ret r3 \<and> ret r4 \<noteq> 0 \<longrightarrow>
      (\<exists>w'. Billiard_semlock_acquire H self tid True (Py_Float t) w =
              Some (Inl Interrupted, self, w') \<and>
            answers w' = rest \<and>
            sleeps (trace w') =
              sleeps (trace w0) @ round_sleeps tvd 0 (qs @ [(r1, r2, r3, r4)]))) \<and>
   list_all (\<lambda>s. s \<le> 20000) (round_sleeps tvd 0 qs) \<and>
   list_all2 (\<lambda>s q. s \<le> remaining tvd (out_tv (fst (snd q)))) (round_sleeps tvd 0 qs) qs \<and>
   (\<forall>k < length qs. unat (round_sleeps tvd 0 qs ! k) \<le> 1000 * k) \<and>
   (list_all (\<lambda>q. 20000 \<le> remaining tvd (out_tv (fst (snd q)))) qs \<longrightarrow>
      round_sleeps tvd 0 qs = map (\<lambda>k. of_nat (min (1000 * k) 20000)) [0..<length qs]) \<and>
   (qs \<noteq> [] \<and> time_moves_on tvd 0 qs \<longrightarrow>
      length qs \<le> unat (remaining tvd (out_tv (fst (snd (hd qs))))) div 1000 + 2)"
proof -
  have bound: "qs \<noteq> [] \<and> time_moves_on tvd 0 qs \<longrightarrow>
      length qs \<le> unat (remaining tvd (out_tv (fst (snd (hd qs))))) div 1000 + 2"
    using polls_bounded [of tvd "hd qs" "tl qs"] by (cases qs) simp_all
  have lin: "\<forall>k < length qs. unat (round_sleeps tvd 0 qs ! k) \<le> 1000 * k"
    using round_sleeps_linear [of _ qs tvd 0] by simp
  have far: "list_all (\<lambda>q. 20000 \<le> remaining tvd (out_tv (fst (snd q)))) qs \<longrightarrow>
      round_sleeps tvd 0 qs = map (\<lambda>k. of_nat (min (1000 * k) 20000)) [0..<length qs]"
    using round_sleeps_far [of tvd qs 0] by simp
  from timed_acquire_outcomes [OF assms] round_sleeps_cap [of tvd 0 qs]
    round_sleeps_remaining [of tvd 0 qs] lin far bound
  show ?thesis by (intro conjI)
qed

theorem timed_acquire_polls_witness:
  "MP_STANDARD_ERROR mp_h < 0 \<and> MP_EXCEPTION_HAS_BEEN_SET mp_h < 0 \<and>
   \<not> (kind fresh_semaphore = RECURSIVE_MUTEX \<and> ISMINE fresh_semaphore 7) \<and>
   acquire_deadline (Py_Float 1)
       (script (clock 100 0 # round_answers [waiting, nearly_due] @
                [failure EAGAIN, clock 101 0, answer 0, answer 0])) =
     Some (Inr \<lparr>ts_sec = 101, ts_nsec = 0\<rparr>,
           \<lparr>answers = round_answers [waiting, nearly_due] @
                        [failure EAGAIN, clock 101 0, answer 0, answer 0],
             trace = [GETTIMEOFDAY], errno = E_NONE\<rparr>) \<and>
   list_all (quiet_round \<lparr>tv_sec = 101, tv_usec = 0\<rparr>) [waiting, nearly_due] \<and>
   deadline_passed \<lparr>tv_sec = 101, tv_usec = 0\<rparr> (out_tv (clock 101 0)) \<and>
   (\<exists>w'. Billiard_semlock_acquire mp_h fresh_semaphore 7 True (Py_Float 1)
            (script (clock 100 0 # round_answers [waiting, nearly_due] @
                     [failure EAGAIN, clock 101 0, answer 0, answer 0])) =
            Some (Inr False, fresh_semaphore, w') \<and>
          answers w' = [answer 0, answer 0] \<and>
          sleeps (trace w') = [0, 500])"
proof -
  let ?w = "script (clock 100 0 # round_answers [waiting, nearly_due] @
                [failure EAGAIN, clock 101 0, answer 0, answer 0])"
  let ?start = "\<lparr>answers = round_answers [waiting, nearly_due] @
                        [failure EAGAIN, clock 101 0, answer 0, answer 0],
             trace = [GETTIMEOFDAY], errno = E_NONE\<rparr>"
  let ?tvd = "\<lparr>tv_sec = 101, tv_usec = 0\<rparr> :: timeval"
  have h: "MP_STANDARD_ERROR mp_h < 0" "MP_EXCEPTION_HAS_BEEN_SET mp_h < 0"
    by (simp_all add: mp_h_def)
  have f: "\<not> (kind fresh_semaphore = RECURSIVE_MUTEX \<and> ISMINE fresh_semaphore 7)"
    by (simp add: fresh_semaphore_def SEMAPHORE_def RECURSIVE_MUTEX_def)
  have d: "acquire_deadline (Py_Float 1) ?w = Some (Inr \<lparr>ts_sec = 101, ts_nsec = 0\<rparr>, ?start)"
    by (simp add: acquire_deadline_def syscall_def extcall_def script_def clock_def trunc_def
        c_div_def c_rem_def Let_def)
  have t: "?tvd = \<lparr>tv_sec = ts_sec \<lparr>ts_sec = 101, ts_nsec = 0\<rparr>,
                    tv_usec = c_div (ts_nsec \<lparr>ts_sec = 101, ts_nsec = 0\<rparr>) 1000\<rparr>"
    by (simp add: c_div_def)
  have q: "list_all (quiet_round ?tvd) [waiting, nearly_due]"
    by (simp add: quiet_round_def deadline_passed_def waiting_def nearly_due_def failure_def
        clock_def answer_def word_sless_alt word_sle_eq)
  have a: "answers ?start = round_answers [waiting, nearly_due] @
      failure EAGAIN # clock 101 0 # answer 0 # answer 0 # []"
    by simp
  have p: "deadline_passed ?tvd (out_tv (clock 101 0))"
    by (simp add: deadline_passed_def clock_def word_sless_alt word_sle_eq)
  have r: "ret (failure EAGAIN) < 0 \<and> err (failure EAGAIN) = EAGAIN \<and> 0 \<le> ret (clock 101 0)"
    by (simp add: failure_def clock_def)
  have s: "sleeps (trace ?start) @ round_sleeps ?tvd 0 [waiting, nearly_due] = [0, 500]"
    by (simp add: round_sleep_def remaining_def waiting_def nearly_due_def clock_def)
  from timed_acquire_polls [OF h f d t q a] p r
  have "\<exists>w'. Billiard_semlock_acquire mp_h fresh_semaphore 7 True (Py_Float 1) ?w =
            Some (Inr False, fresh_semaphore, w') \<and>
          answers w' = answer 0 # answer 0 # [] \<and>
          sleeps (trace w') = sleeps (trace ?start) @ round_sleeps ?tvd 0 [waiting, nearly_due]"
    by blast
  with s have "\<exists>w'. Billiard_semlock_acquire mp_h fresh_semaphore 7 True (Py_Float 1) ?w =
            Some (Inr False, fresh_semaphore, w') \<and>
          answers w' = [answer 0, answer 0] \<and> sleeps (trace w') = [0, 500]"
    by simp
  with h f d q p show ?thesis by blast
qed


text \<open>
  Claim C3 as stated fails in the growth of the delay. A timed acquire with ten seconds
  to go, whose first four polls find the semaphore taken and whose fifth succeeds,
  sleeps 0, 1000, 2000 and 3000 microseconds: the delay grows by the constant 1000 of
  \<open>delay += 1000\<close>, and the delays are not in geometric progression.
\<close>

theorem poll_delays_linear:
  "Billiard_semlock_acquire mp_h fresh_semaphore 7 True (Py_Float 10)
       (script (clock 100 0 # round_answers [waiting, waiting, waiting, waiting] @ [answer 0])) =
     Some (Inr True, fresh_semaphore\<lparr>count := 1, last_tid := 7\<rparr>,
           \<lparr>answers = [], trace = four_polls, errno = EAGAIN\<rparr>) \<and>
   map unat (sleeps four_polls) = [0, 1000, 2000, 3000] \<and>
   \<not> geometric [0, 1000, 2000, 3000]"
  by (simp add: Billiard_semlock_acquire_def acquire_deadline_def acquire_wait.simps
      Billiard_sem_timedwait_save_def poll_loop.simps ISMINE_def syscall_def extcall_def
      script_def round_answers_def waiting_def failure_def clock_def answer_def
      fresh_semaphore_def mp_h_def SEMAPHORE_def RECURSIVE_MUTEX_def trunc_def c_div_def
      c_rem_def Let_def word_sless_alt word_sle_eq four_polls_def)


end
